theory Spec2Isabelle
  imports Complex_Main "HOL-Library.Sublist"
begin

section \<open>Python values used by the transcription client\<close>

text \<open>
  The development embeds the segment event pipeline of \<^verbatim>\<open>utils/run_client.py\<close>:
  the class \<^verbatim>\<open>TranscriptionLogger\<close> and the closures \<^verbatim>\<open>trigger_word_callback\<close> and
  \<^verbatim>\<open>combined_callback\<close>.

  Conventions of the embedding.
  \<^item> A Python \<^verbatim>\<open>str\<close> is a \<open>string\<close>; a \<open>char\<close> stands for the code point of the same
    number, so the model covers text over U+0000..U+00FF, where \<^verbatim>\<open>str.lower\<close> keeps the
    length of a string.
  \<^item> A \<^verbatim>\<open>datetime\<close> is its number of microseconds (an \<open>int\<close>), a \<^verbatim>\<open>timedelta\<close> likewise;
    a Python \<^verbatim>\<open>float\<close> is a rational number (no rounding error, no NaN).
  \<^item> An exception is a value \<open>Exn type message\<close>; a function that can raise returns the
    state it has reached together with the exception, since the mutations done before a
    \<^verbatim>\<open>raise\<close> stay.
\<close>

datatype exn = Exn string string

fun exn_type :: "exn \<Rightarrow> string" where
  "exn_type (Exn t m) = t"

text \<open>\<^verbatim>\<open>str(e)\<close>\<close>

fun exn_str :: "exn \<Rightarrow> string" where
  "exn_str (Exn t m) = m"

text \<open>The outcome of a call: the value returned, or the exception raised.\<close>

datatype 'a result = Return 'a | Raise exn

text \<open>A value of a timing field of a segment as JSON delivers it.\<close>

datatype pyval = PNone | PNum rat | PStr string

type_synonym datetime = int
type_synonym timedelta = int

text \<open>\<^verbatim>\<open>timedelta.total_seconds()\<close>\<close>

definition total_seconds :: "timedelta \<Rightarrow> rat" where
  "total_seconds d = of_int d / 1000000"

text \<open>Python rounds a tie to the even neighbour, in \<^verbatim>\<open>round\<close> and in \<^verbatim>\<open>timedelta\<close>.\<close>

definition round_half_even :: "rat \<Rightarrow> int" where
  "round_half_even x =
     (let f = \<lfloor>x\<rfloor>; r = x - of_int f
      in if r < 1/2 then f else if 1/2 < r then f + 1 else if even f then f else f + 1)"

text \<open>\<^verbatim>\<open>datetime.timedelta(seconds=s)\<close>\<close>

definition timedelta_seconds :: "rat \<Rightarrow> timedelta" where
  "timedelta_seconds s = round_half_even (s * 1000000)"

text \<open>\<^verbatim>\<open>round(x, 3)\<close>\<close>

definition round3 :: "rat \<Rightarrow> rat" where
  "round3 x = of_int (round_half_even (x * 1000)) / 1000"

text \<open>\<^verbatim>\<open>d.get(key, default)\<close> on a field that may be absent.\<close>

fun get_or :: "'a option \<Rightarrow> 'a \<Rightarrow> 'a" where
  "get_or None d = d"
| "get_or (Some v) d = v"

subsection \<open>String methods\<close>

text \<open>\<^verbatim>\<open>str.isspace\<close> on one character: TAB..CR, FS..US, space, NEL and NBSP.\<close>

definition isspace :: "char \<Rightarrow> bool" where
  "isspace c = (let n = (of_char c :: nat) in
     (9 \<le> n \<and> n \<le> 13) \<or> (28 \<le> n \<and> n \<le> 32) \<or> n = 133 \<or> n = 160)"

text \<open>The characters \<^verbatim>\<open>str.lower\<close> changes: A..Z and the capital letters U+00C0..U+00DE
  (U+00D7, the multiplication sign, is not a letter). Each moves up by 32, which sets
  bit 5 of the code point.\<close>

definition isupper :: "char \<Rightarrow> bool" where
  "isupper c = (let n = (of_char c :: nat) in
     (65 \<le> n \<and> n \<le> 90) \<or> (192 \<le> n \<and> n \<le> 222 \<and> n \<noteq> 215))"

fun set_bit5 :: "char \<Rightarrow> char" where
  "set_bit5 (Char b0 b1 b2 b3 b4 b5 b6 b7) = Char b0 b1 b2 b3 b4 True b6 b7"

definition lower_char :: "char \<Rightarrow> char" where
  "lower_char c = (if isupper c then set_bit5 c else c)"

definition py_lower :: "string \<Rightarrow> string" where
  "py_lower s = map lower_char s"

text \<open>\<^verbatim>\<open>s.lstrip(chars)\<close> and \<^verbatim>\<open>s.strip()\<close>\<close>

definition py_lstrip :: "string \<Rightarrow> string \<Rightarrow> string" where
  "py_lstrip chars s = dropWhile (\<lambda>c. c \<in> set chars) s"

definition py_strip :: "string \<Rightarrow> string" where
  "py_strip s = rev (dropWhile isspace (rev (dropWhile isspace s)))"

text \<open>\<^verbatim>\<open>s.split()\<close>: the maximal runs of non-whitespace characters.\<close>

fun split_acc :: "string \<Rightarrow> string \<Rightarrow> string list" where
  "split_acc w [] = (if w = [] then [] else [rev w])"
| "split_acc w (c # cs) =
     (if isspace c then (if w = [] then split_acc [] cs else rev w # split_acc [] cs)
      else split_acc (c # w) cs)"

definition py_split :: "string \<Rightarrow> string list" where
  "py_split s = split_acc [] s"

text \<open>\<^verbatim>\<open>sep.join(xs)\<close>\<close>

fun py_join :: "string \<Rightarrow> string list \<Rightarrow> string" where
  "py_join sep [] = []"
| "py_join sep [x] = x"
| "py_join sep (x # y # ys) = x @ sep @ py_join sep (y # ys)"

text \<open>\<^verbatim>\<open>sub in s\<close>\<close>

fun py_in :: "string \<Rightarrow> string \<Rightarrow> bool" where
  "py_in sub [] = (sub = [])"
| "py_in sub (c # cs) = (prefix sub (c # cs) \<or> py_in sub cs)"

text \<open>\<^verbatim>\<open>s.rfind(sub)\<close>: the highest index where \<open>sub\<close> starts in \<open>s\<close>, or \<open>-1\<close>. The
  search runs from the last possible start downwards.\<close>

fun rfind_from :: "string \<Rightarrow> string \<Rightarrow> nat \<Rightarrow> int" where
  "rfind_from s sub 0 = (if prefix sub s then 0 else -1)"
| "rfind_from s sub (Suc i) =
     (if prefix sub (drop (Suc i) s) then int (Suc i) else rfind_from s sub i)"

definition py_rfind :: "string \<Rightarrow> string \<Rightarrow> int" where
  "py_rfind s sub =
     (if length sub \<le> length s then rfind_from s sub (length s - length sub) else -1)"

text \<open>\<^verbatim>\<open>s[i:]\<close> for an index \<open>i \<ge> 0\<close>; a negative index counts from the end.\<close>

definition slice_from :: "'a list \<Rightarrow> int \<Rightarrow> 'a list" where
  "slice_from xs i = (if 0 \<le> i then drop (nat i) xs else drop (nat (int (length xs) + i)) xs)"

section \<open>Segments, statistics and the logger\<close>

text \<open>A segment is a dictionary with the keys \<^verbatim>\<open>text\<close>, \<^verbatim>\<open>start\<close>, \<^verbatim>\<open>end\<close>, \<^verbatim>\<open>completed\<close> and
  \<^verbatim>\<open>no_speech_prob\<close>; each may be absent (\<open>None\<close>). A text that is present is a string; a
  timing field that is present is \<^verbatim>\<open>None\<close>, a number or a string; \<^verbatim>\<open>completed\<close> is kept
  as its truth value.\<close>

record segment =
  seg_text :: "string option"
  seg_start :: "pyval option"
  seg_end :: "pyval option"
  seg_completed :: "bool option"
  seg_no_speech_prob :: "pyval option"

text \<open>\<^verbatim>\<open>self.stats\<close>\<close>

record session_stats =
  total_segments :: int
  completed_segments :: int
  incomplete_segments :: int
  total_duration :: rat
  total_words :: int
  trigger_words_detected :: int
  trigger_statements_saved :: int
  vad_triggers :: int
  vad_silence_filters :: int
  vad_total_events :: int
  segment_sizes :: "int list"
  segment_durations :: "rat list"
  processing_times :: "rat list"
  silence_periods :: "rat list"

text \<open>\<^verbatim>\<open>segment_info\<close> of \<^verbatim>\<open>log_segment\<close>, and \<^verbatim>\<open>event_info\<close> of \<^verbatim>\<open>log_vad_event\<close>\<close>

record segment_info =
  si_timestamp :: datetime
  si_type :: string
  si_segment_index :: int
  si_time_since_last :: rat
  si_data :: segment
  si_word_count :: "int option"
  si_duration :: "rat option"

type_synonym details = "(string \<times> pyval) list"

datatype log_item =
  SegmentInfo segment_info
| EventInfo datetime "string option" details

text \<open>What \<^verbatim>\<open>json.dump\<close> writes: the statistics and the items so far.\<close>

record json_doc =
  doc_stats :: session_stats
  doc_segments :: "log_item list"

text \<open>One block appended to the text log. The formatted text is a function of the values
  kept here.\<close>

datatype text_entry =
  TextSegment segment_info int bool
| TextVad datetime "string option" details
| TextTrigger datetime string "string option" "string option"
| TextError exn bool

text \<open>One statement appended to the trigger output file: time, trigger word, statement.\<close>

datatype trigger_entry = TriggerEntry datetime "string option" string

text \<open>A line printed to the terminal.\<close>

datatype console_msg =
  MsgTriggerDetected string
| MsgStatementSaved string
| MsgAutoTyping int
| MsgTypedOk
| MsgTypedFailed
| MsgAutoTypeUnavailable
| MsgSidecar string
| MsgWriteWarning exn
| MsgCritical exn

text \<open>
  The world outside the process. The wall clock is a sequence of readings, one taken by
  each \<^verbatim>\<open>datetime.now()\<close> or \<^verbatim>\<open>time.time()\<close>. A file whose fault is \<open>Some e\<close> cannot be
  opened: \<^verbatim>\<open>open\<close> raises \<open>e\<close> and nothing is written. A \<^verbatim>\<open>with open(...)\<close> block that
  opens its file completes. \<open>sidecar\<close> answers \<^verbatim>\<open>WSL_TYPER.type_text\<close>, which catches its
  own errors: what it returns and what it prints.
\<close>

record world =
  clock :: "nat \<Rightarrow> datetime"
  reads :: nat
  text_log :: "text_entry list"
  text_log_fault :: "exn option"
  json_log :: "json_doc option"
  json_log_fault :: "exn option"
  trigger_file :: "trigger_entry list"
  trigger_file_fault :: "exn option"
  console :: "console_msg list"
  sidecar :: "string \<Rightarrow> int \<Rightarrow> bool \<times> console_msg list"

text \<open>\<^verbatim>\<open>datetime.datetime.now()\<close>\<close>

definition now :: "world \<Rightarrow> datetime \<times> world" where
  "now w = (clock w (reads w), w\<lparr>reads := Suc (reads w)\<rparr>)"

text \<open>\<^verbatim>\<open>print(...)\<close>\<close>

definition print :: "console_msg \<Rightarrow> world \<Rightarrow> world" where
  "print m w = w\<lparr>console := console w @ [m]\<rparr>"

text \<open>The attributes of a \<^verbatim>\<open>TranscriptionLogger\<close> that the callbacks read or write.\<close>

record logger =
  enable_json :: bool
  enable_text :: bool
  verbose :: bool
  logged_segments :: "(string \<times> pyval \<times> pyval) set"
  json_segments :: "log_item list"
  stats :: session_stats
  last_segment_time :: rat

text \<open>The statistics \<^verbatim>\<open>__init__\<close> sets up.\<close>

definition init_stats :: session_stats where
  "init_stats =
     \<lparr>total_segments = 0, completed_segments = 0, incomplete_segments = 0,
      total_duration = 0, total_words = 0, trigger_words_detected = 0,
      trigger_statements_saved = 0, vad_triggers = 0, vad_silence_filters = 0,
      vad_total_events = 0, segment_sizes = [], segment_durations = [],
      processing_times = [], silence_periods = []\<rparr>"

text \<open>The logger after \<^verbatim>\<open>__init__\<close>, which reads the clock for \<^verbatim>\<open>last_segment_time\<close>.\<close>

definition init_logger :: "bool \<Rightarrow> bool \<Rightarrow> bool \<Rightarrow> rat \<Rightarrow> logger" where
  "init_logger ej et vb t0 =
     \<lparr>enable_json = ej, enable_text = et, verbose = vb, logged_segments = {},
      json_segments = [], stats = init_stats, last_segment_time = t0\<rparr>"

subsection \<open>\<^verbatim>\<open>log_segment\<close>\<close>

text \<open>The identifier of a segment: \<^verbatim>\<open>(text, start_time, end_time)\<close>, lines 101 to 104.\<close>

definition segment_key :: "segment \<Rightarrow> string \<times> pyval \<times> pyval" where
  "segment_key segment_data =
     (py_strip (get_or (seg_text segment_data) ''''),
      get_or (seg_start segment_data) (PNum 0),
      get_or (seg_end segment_data) (PNum 0))"

text \<open>\<^verbatim>\<open>float(v)\<close>: \<open>None\<close> when it raises \<^verbatim>\<open>ValueError\<close> or \<^verbatim>\<open>TypeError\<close>. How Python reads a
  number from a string is the parameter \<open>pf\<close>.\<close>

fun py_float :: "(string \<Rightarrow> rat option) \<Rightarrow> pyval \<Rightarrow> rat option" where
  "py_float pf PNone = None"
| "py_float pf (PNum r) = Some r"
| "py_float pf (PStr s) = pf s"

text \<open>\<^verbatim>\<open>segment_data.get("completed", False)\<close> as a condition.\<close>

definition is_completed :: "segment \<Rightarrow> bool" where
  "is_completed segment_data = get_or (seg_completed segment_data) False"

text \<open>Lines 130 to 134: the segment counters.\<close>

definition count_segment :: "segment \<Rightarrow> session_stats \<Rightarrow> session_stats" where
  "count_segment segment_data st =
     (let st1 = st\<lparr>total_segments := total_segments st + 1\<rparr>
      in if is_completed segment_data
         then st1\<lparr>completed_segments := completed_segments st1 + 1\<rparr>
         else st1\<lparr>incomplete_segments := incomplete_segments st1 + 1\<rparr>)"

text \<open>Lines 136 to 139: the word count, when the segment has a text.\<close>

definition count_words :: "segment \<Rightarrow> session_stats \<times> segment_info \<Rightarrow> session_stats \<times> segment_info" where
  "count_words segment_data p =
     (case p of (st, info) \<Rightarrow>
        (case seg_text segment_data of
           None \<Rightarrow> (st, info)
         | Some t \<Rightarrow>
             (let word_count = int (length (py_split t))
              in (st\<lparr>total_words := total_words st + word_count\<rparr>,
                  info\<lparr>si_word_count := Some word_count\<rparr>))))"

text \<open>Lines 141 to 151: duration and total duration, when both timing fields are there
  and \<^verbatim>\<open>float\<close> accepts both; the \<^verbatim>\<open>except\<close> clause leaves everything as it was.\<close>

definition record_timing ::
  "(string \<Rightarrow> rat option) \<Rightarrow> segment \<Rightarrow> session_stats \<times> segment_info \<Rightarrow> session_stats \<times> segment_info" where
  "record_timing pf segment_data p =
     (case p of (st, info) \<Rightarrow>
        (case (seg_start segment_data, seg_end segment_data) of
           (Some s, Some e) \<Rightarrow>
             (case py_float pf s of
                None \<Rightarrow> (st, info)
              | Some start_time \<Rightarrow>
                  (case py_float pf e of
                     None \<Rightarrow> (st, info)
                   | Some end_time \<Rightarrow>
                       (let duration = end_time - start_time
                        in (st\<lparr>segment_durations := segment_durations st @ [duration],
                                total_duration := max (total_duration st) end_time\<rparr>,
                            info\<lparr>si_duration := Some (round3 duration)\<rparr>))))
         | _ \<Rightarrow> (st, info)))"

text \<open>Lines 154 to 172: the JSON log. The item is appended before the file is opened.\<close>

definition write_json :: "segment_info \<Rightarrow> logger \<times> world \<Rightarrow> (logger \<times> world) \<times> exn option" where
  "write_json info p =
     (case p of (lg, w) \<Rightarrow>
        if enable_json lg then
          (let lg1 = lg\<lparr>json_segments := json_segments lg @ [SegmentInfo info]\<rparr>
           in case json_log_fault w of
                Some e \<Rightarrow> ((lg1, w), Some e)
              | None \<Rightarrow>
                  ((lg1, w\<lparr>json_log := Some \<lparr>doc_stats = stats lg1,
                                             doc_segments = json_segments lg1\<rparr>\<rparr>), None))
        else ((lg, w), None))"

text \<open>Lines 175 to 196: the text log.\<close>

definition write_text :: "segment_info \<Rightarrow> logger \<times> world \<Rightarrow> (logger \<times> world) \<times> exn option" where
  "write_text info p =
     (case p of (lg, w) \<Rightarrow>
        if enable_text lg then
          (case text_log_fault w of
             Some e \<Rightarrow> ((lg, w), Some e)
           | None \<Rightarrow>
               ((lg, w\<lparr>text_log := text_log w @
                          [TextSegment info (total_segments (stats lg)) (verbose lg)]\<rparr>), None))
        else ((lg, w), None))"

text \<open>Lines 111 to 151: a segment not seen before is registered, the clock is read twice
  (\<^verbatim>\<open>datetime.now()\<close>, then \<^verbatim>\<open>time.time()\<close>), and the statistics are updated.\<close>

definition new_segment ::
  "(string \<Rightarrow> rat option) \<Rightarrow> logger \<times> world \<Rightarrow> segment \<Rightarrow> string
     \<Rightarrow> (logger \<times> world) \<times> segment_info" where
  "new_segment pf p segment_data segment_type =
     (case p of (lg, w) \<Rightarrow>
        (let lg1 = lg\<lparr>logged_segments := insert (segment_key segment_data) (logged_segments lg)\<rparr>;
             (timestamp, w1) = now w;
             (t, w2) = now w1;
             current_time = total_seconds t;
             time_since_last = current_time - last_segment_time lg1;
             lg2 = lg1\<lparr>last_segment_time := current_time\<rparr>;
             info = \<lparr>si_timestamp = timestamp, si_type = segment_type,
                     si_segment_index = total_segments (stats lg2),
                     si_time_since_last = round3 time_since_last,
                     si_data = segment_data, si_word_count = None, si_duration = None\<rparr>;
             (st, info1) = record_timing pf segment_data
                             (count_words segment_data (count_segment segment_data (stats lg2), info))
         in ((lg2\<lparr>stats := st\<rparr>, w2), info1)))"

text \<open>Lines 153 to 198: the two logs are written, and the segment information is
  returned. An exception of the first write skips the second.\<close>

definition write_logs ::
  "segment_info \<Rightarrow> logger \<times> world \<Rightarrow> (logger \<times> world) \<times> segment_info option result" where
  "write_logs info p =
     (case write_json info p of
        (q, Some e) \<Rightarrow> (q, Raise e)
      | (q, None) \<Rightarrow>
          (case write_text info q of
             (q', Some e) \<Rightarrow> (q', Raise e)
           | (q', None) \<Rightarrow> (q', Return (Some info))))"

text \<open>\<^verbatim>\<open>TranscriptionLogger.log_segment\<close>. It returns \<open>None\<close> for a segment it has seen.\<close>

definition log_segment ::
  "(string \<Rightarrow> rat option) \<Rightarrow> logger \<times> world \<Rightarrow> segment \<Rightarrow> string
     \<Rightarrow> (logger \<times> world) \<times> segment_info option result" where
  "log_segment pf p segment_data segment_type =
     (if segment_key segment_data \<in> logged_segments (fst p) then (p, Return None)
      else (case new_segment pf p segment_data segment_type of
              (q, info) \<Rightarrow> write_logs info q))"

subsection \<open>\<^verbatim>\<open>log_vad_event\<close> and \<^verbatim>\<open>log_trigger_event\<close>\<close>

text \<open>\<^verbatim>\<open>TranscriptionLogger.log_vad_event\<close>. The event type is \<open>None\<close> when the event has no
  \<^verbatim>\<open>type\<close> key. A dictionary of details is true as a condition when it is not empty; the text
  line records the details then.\<close>

definition log_vad_event ::
  "logger \<times> world \<Rightarrow> string option \<Rightarrow> details \<Rightarrow> (logger \<times> world) \<times> exn option" where
  "log_vad_event p event_type dets =
     (case p of (lg, w) \<Rightarrow>
        (let st1 = (stats lg)\<lparr>vad_total_events := vad_total_events (stats lg) + 1\<rparr>;
             st2 = (if event_type = Some ''vad_filter''
                    then st1\<lparr>vad_silence_filters := vad_silence_filters st1 + 1\<rparr> else st1);
             lg1 = lg\<lparr>stats := st2\<rparr>;
             (timestamp, w1) = now w;
             lg2 = (if enable_json lg1
                    then lg1\<lparr>json_segments := json_segments lg1 @ [EventInfo timestamp event_type dets]\<rparr>
                    else lg1)
         in if enable_text lg2 \<and> verbose lg2 then
              (case text_log_fault w1 of
                 Some e \<Rightarrow> ((lg2, w1), Some e)
               | None \<Rightarrow>
                   ((lg2, w1\<lparr>text_log := text_log w1 @ [TextVad timestamp event_type dets]\<rparr>), None))
            else ((lg2, w1), None)))"

text \<open>\<^verbatim>\<open>TranscriptionLogger.log_trigger_event\<close>\<close>

definition log_trigger_event ::
  "logger \<times> world \<Rightarrow> string \<Rightarrow> string option \<Rightarrow> string option \<Rightarrow> (logger \<times> world) \<times> exn option" where
  "log_trigger_event p event_type tw statement =
     (case p of (lg, w) \<Rightarrow>
        (let st = stats lg;
             st1 = (if event_type = ''trigger_detected''
                    then st\<lparr>trigger_words_detected := trigger_words_detected st + 1\<rparr>
                    else if event_type = ''statement_saved''
                    then st\<lparr>trigger_statements_saved := trigger_statements_saved st + 1\<rparr>
                    else st);
             lg1 = lg\<lparr>stats := st1\<rparr>
         in if enable_text lg1 \<and> verbose lg1 then
              (let (timestamp, w1) = now w
               in case text_log_fault w1 of
                    Some e \<Rightarrow> ((lg1, w1), Some e)
                  | None \<Rightarrow>
                      ((lg1, w1\<lparr>text_log := text_log w1 @
                                   [TextTrigger timestamp event_type tw statement]\<rparr>), None))
            else ((lg1, w), None)))"

section \<open>The trigger detector\<close>

text \<open>The command line arguments the callbacks read. \<open>trigger_words\<close> is \<open>[]\<close> when the
  option was not given (\<^verbatim>\<open>None\<close>, false as a condition like the empty list).
  \<open>wsl_typing_available\<close> is the module's \<^verbatim>\<open>WSL_TYPING_AVAILABLE\<close>.\<close>

record args =
  trigger_words :: "string list"
  wsl_auto_type :: bool
  type_delay_ms :: int
  wsl_typing_available :: bool

text \<open>The dictionary \<^verbatim>\<open>trigger_state\<close>. The two segment counts are lengths of lists.\<close>

record trigger_state =
  waiting :: bool
  trigger_word :: "string option"
  trigger_position :: int
  trigger_segment_index :: int
  start_time :: "datetime option"
  last_change_time :: "datetime option"
  stability_delay :: rat
  last_saved_text :: string
  cooldown_until :: "datetime option"
  last_processed_segment_count :: nat
  waiting_segment_count :: nat
  collection_timeout :: rat
  max_collection_time :: "datetime option"

text \<open>Lines 467 to 481; the argument is \<^verbatim>\<open>args.text_stability_delay\<close>.\<close>

definition init_trigger_state :: "rat \<Rightarrow> trigger_state" where
  "init_trigger_state delay =
     \<lparr>waiting = False, trigger_word = None, trigger_position = -1,
      trigger_segment_index = -1, start_time = None, last_change_time = None,
      stability_delay = delay, last_saved_text = '''', cooldown_until = None,
      last_processed_segment_count = 0, waiting_segment_count = 0,
      collection_timeout = 5, max_collection_time = None\<rparr>"

text \<open>What the closures share: the trigger state, the logger (\<open>None\<close> when logging is
  disabled) and the world.\<close>

type_synonym state = "trigger_state \<times> logger option \<times> world"

text \<open>Line 492: the cooldown test.\<close>

definition in_cooldown :: "trigger_state \<Rightarrow> datetime \<Rightarrow> bool" where
  "in_cooldown ts current_time =
     (case cooldown_until ts of None \<Rightarrow> False | Some c \<Rightarrow> current_time < c)"

text \<open>Lines 497 to 516: the bookkeeping of a callback in the waiting state, and whether it
  finalizes.\<close>

definition update_waiting :: "trigger_state \<Rightarrow> datetime \<Rightarrow> nat \<Rightarrow> trigger_state \<times> bool" where
  "update_waiting ts current_time current_segment_count =
     (let deadline = (case max_collection_time ts of
                        None \<Rightarrow> current_time + timedelta_seconds (collection_timeout ts)
                      | Some d \<Rightarrow> d);
          ts1 = ts\<lparr>max_collection_time := Some deadline\<rparr>;
          segments_changed = (current_segment_count > waiting_segment_count ts1);
          collection_timeout_reached = (current_time \<ge> deadline);
          ts2 = (if segments_changed
                 then ts1\<lparr>last_change_time := Some current_time,
                          waiting_segment_count := current_segment_count\<rparr>
                 else ts1);
          time_since_change = (case last_change_time ts2 of
                                 Some t \<Rightarrow> total_seconds (current_time - t) | None \<Rightarrow> 0);
          stability_reached = (time_since_change \<ge> stability_delay ts2);
          time_since_trigger = (case start_time ts2 of
                                  Some t \<Rightarrow> total_seconds (current_time - t) | None \<Rightarrow> 0);
          minimum_collection_time = 2;
          should_finalize = (collection_timeout_reached \<or>
                             (stability_reached \<and> time_since_trigger \<ge> minimum_collection_time))
      in (ts2, should_finalize))"

text \<open>\<^verbatim>\<open>[s.get('text', '').strip() for s in segments]\<close>\<close>

definition segment_texts :: "segment list \<Rightarrow> string list" where
  "segment_texts segments = map (\<lambda>s. py_strip (get_or (seg_text s) '''')) segments"

text \<open>Lines 522 to 535: the text after the trigger word. \<^verbatim>\<open>None.lower()\<close> raises.\<close>

definition extract_post_trigger :: "trigger_state \<Rightarrow> segment list \<Rightarrow> string result" where
  "extract_post_trigger ts segments =
     (let all_text = py_join '' '' (segment_texts segments)
      in case trigger_word ts of
           None \<Rightarrow> Raise (Exn ''AttributeError'' ''NoneType object has no attribute lower'')
         | Some tw \<Rightarrow>
             (let tw_lower = py_lower tw;
                  trigger_pos = py_rfind (py_lower all_text) tw_lower
              in if trigger_pos \<ge> 0
                 then Return (py_lstrip '' ,.!?''
                        (py_strip (slice_from all_text (trigger_pos + int (length tw_lower)))))
                 else Return (py_join '' ''
                        (segment_texts (slice_from segments (trigger_segment_index ts + 1))))))"

text \<open>Lines 538 to 540: whether the statement is worth saving.\<close>

definition should_save :: "trigger_state \<Rightarrow> string \<Rightarrow> bool" where
  "should_save ts post_trigger_text =
     (py_strip post_trigger_text \<noteq> [] \<and>
      py_strip post_trigger_text \<notin> set [''.'', '','', ''''] \<and>
      py_strip post_trigger_text \<noteq> last_saved_text ts)"

text \<open>Lines 559 to 570: typing the statement into Windows.\<close>

definition auto_type :: "args \<Rightarrow> string \<Rightarrow> world \<Rightarrow> world" where
  "auto_type a statement w =
     (if wsl_auto_type a \<and> wsl_typing_available a then
        (let w1 = print (MsgAutoTyping (type_delay_ms a)) w;
             (success, msgs) = sidecar w1 statement (type_delay_ms a);
             w2 = w1\<lparr>console := console w1 @ msgs\<rparr>
         in if success then print MsgTypedOk w2 else print MsgTypedFailed w2)
      else if wsl_auto_type a \<and> \<not> wsl_typing_available a then print MsgAutoTypeUnavailable w
      else w)"

text \<open>Line 556: the statement as the terminal shows it.\<close>

definition preview :: "string \<Rightarrow> string" where
  "preview statement = take 50 statement @ (if length statement > 50 then ''...'' else '''')"

text \<open>Lines 542 to 581: the \<^verbatim>\<open>try\<close> block that saves the statement, with its \<^verbatim>\<open>except\<close>
  clause, which prints a warning and goes on.\<close>

definition save_statement :: "args \<Rightarrow> datetime \<Rightarrow> string \<Rightarrow> state \<Rightarrow> state" where
  "save_statement a current_time post_trigger_text p =
     (case p of (ts, lgo, w) \<Rightarrow>
        (case trigger_file_fault w of
           Some e \<Rightarrow> (ts, lgo, print (MsgWriteWarning e) w)
         | None \<Rightarrow>
             (let statement = py_strip post_trigger_text;
                  w1 = w\<lparr>trigger_file := trigger_file w @
                            [TriggerEntry current_time (trigger_word ts) statement]\<rparr>;
                  w2 = print (MsgStatementSaved (preview statement)) w1;
                  w3 = auto_type a statement w2;
                  ts1 = ts\<lparr>last_saved_text := statement,
                           cooldown_until := Some (current_time + timedelta_seconds 2)\<rparr>
              in case lgo of
                   None \<Rightarrow> (ts1, None, w3)
                 | Some lg \<Rightarrow>
                     (case log_trigger_event (lg, w3) ''statement_saved'' (trigger_word ts)
                             (Some statement) of
                        ((lg', w4), Some e) \<Rightarrow> (ts, Some lg', print (MsgWriteWarning e) w4)
                      | ((lg', w4), None) \<Rightarrow> (ts1, Some lg', w4)))))"

text \<open>Lines 584 to 591: back to idle.\<close>

definition reset_state :: "trigger_state \<Rightarrow> nat \<Rightarrow> trigger_state" where
  "reset_state ts current_segment_count =
     ts\<lparr>waiting := False, trigger_word := None, trigger_segment_index := -1,
        trigger_position := -1, start_time := None, last_change_time := None,
        max_collection_time := None,
        last_processed_segment_count := current_segment_count\<rparr>"

text \<open>Lines 518 to 591: finalization.\<close>

definition finalize :: "args \<Rightarrow> datetime \<Rightarrow> segment list \<Rightarrow> state \<Rightarrow> state \<times> exn option" where
  "finalize a current_time segments p =
     (case p of (ts, lgo, w) \<Rightarrow>
        if trigger_segment_index ts \<ge> 0 then
          (case extract_post_trigger ts segments of
             Raise e \<Rightarrow> ((ts, lgo, w), Some e)
           | Return post_trigger_text \<Rightarrow>
               (case (if should_save ts post_trigger_text
                      then save_statement a current_time post_trigger_text (ts, lgo, w)
                      else (ts, lgo, w)) of
                  (ts', lgo', w') \<Rightarrow> ((reset_state ts' (length segments), lgo', w'), None)))
        else ((reset_state ts (length segments), lgo, w), None))"

text \<open>Lines 605 to 606: the first configured trigger word that the segment text contains,
  both in lower case.\<close>

fun find_trigger_word :: "string list \<Rightarrow> string \<Rightarrow> string option" where
  "find_trigger_word [] segment_text = None"
| "find_trigger_word (tw # tws) segment_text =
     (if py_in (py_lower tw) (py_lower segment_text) then Some tw
      else find_trigger_word tws segment_text)"

text \<open>Lines 597 to 606: the loop over the new segments, up to its first match. The loop
  changes nothing until it finds one.\<close>

fun scan_segments :: "string list \<Rightarrow> nat \<Rightarrow> segment list \<Rightarrow> (nat \<times> string) option" where
  "scan_segments tws actual_index [] = None"
| "scan_segments tws actual_index (segment # rest) =
     (let segment_text = py_strip (get_or (seg_text segment) '''')
      in if segment_text = [] then scan_segments tws (Suc actual_index) rest
         else (case find_trigger_word tws segment_text of
                 Some tw \<Rightarrow> Some (actual_index, tw)
               | None \<Rightarrow> scan_segments tws (Suc actual_index) rest))"

text \<open>Lines 607 to 620: what the loop does at its match, before it returns.\<close>

definition start_waiting :: "datetime \<Rightarrow> nat \<Rightarrow> nat \<Rightarrow> string \<Rightarrow> state \<Rightarrow> state \<times> exn option" where
  "start_waiting current_time current_segment_count actual_index tw p =
     (case p of (ts, lgo, w) \<Rightarrow>
        (let ts1 = ts\<lparr>waiting := True, trigger_word := Some tw,
                      trigger_segment_index := int actual_index,
                      start_time := Some current_time,
                      last_change_time := Some current_time,
                      waiting_segment_count := current_segment_count\<rparr>
         in case lgo of
              None \<Rightarrow> ((ts1, None, print (MsgTriggerDetected tw) w), None)
            | Some lg \<Rightarrow>
                (case log_trigger_event (lg, w) ''trigger_detected'' (Some tw) None of
                   ((lg', w'), Some e) \<Rightarrow> ((ts1, Some lg', w'), Some e)
                 | ((lg', w'), None) \<Rightarrow>
                     ((ts1, Some lg', print (MsgTriggerDetected tw) w'), None))))"

text \<open>\<^verbatim>\<open>trigger_word_callback\<close>, lines 483 to 620. \<open>segments_arg\<close> is \<open>None\<close> for Python's
  \<^verbatim>\<open>None\<close>.\<close>

definition trigger_word_callback ::
  "args \<Rightarrow> state \<Rightarrow> string \<Rightarrow> segment list option \<Rightarrow> state \<times> exn option" where
  "trigger_word_callback a p txt segments_arg =
     (case p of (ts, lgo, w) \<Rightarrow>
        (case segments_arg of
           None \<Rightarrow> (p, None)
         | Some segments \<Rightarrow>
             if trigger_words a = [] \<or> segments = [] then (p, None)
             else
               (let (current_time, w1) = now w;
                    current_segment_count = length segments
                in if in_cooldown ts current_time then ((ts, lgo, w1), None)
                   else if waiting ts then
                     (case update_waiting ts current_time current_segment_count of
                        (ts1, should_finalize) \<Rightarrow>
                          if should_finalize then finalize a current_time segments (ts1, lgo, w1)
                          else ((ts1, lgo, w1), None))
                   else
                     (case scan_segments (trigger_words a) (last_processed_segment_count ts)
                             (drop (last_processed_segment_count ts) segments) of
                        None \<Rightarrow> ((ts, lgo, w1), None)
                      | Some (actual_index, tw) \<Rightarrow>
                          start_waiting current_time current_segment_count actual_index tw
                            (ts, lgo, w1)))))"

section \<open>The combined callback\<close>

text \<open>A VAD sub-event: a dictionary with the keys \<^verbatim>\<open>type\<close> and \<^verbatim>\<open>details\<close>.\<close>

record vad_event =
  vad_type :: "string option"
  vad_details :: "details option"

text \<open>Lines 665 to 668: the loop that logs the completed segments. An exception of
  \<^verbatim>\<open>log_segment\<close> ends it.\<close>

fun log_completed ::
  "(string \<Rightarrow> rat option) \<Rightarrow> logger \<times> world \<Rightarrow> segment list \<Rightarrow> (logger \<times> world) \<times> exn option" where
  "log_completed pf p [] = (p, None)"
| "log_completed pf p (seg # segs) =
     (if is_completed seg then
        (case log_segment pf p seg ''transcription'' of
           (q, Raise e) \<Rightarrow> (q, Some e)
         | (q, Return r) \<Rightarrow> log_completed pf q segs)
      else log_completed pf p segs)"

text \<open>Lines 664 to 668. Iterating over \<^verbatim>\<open>None\<close> raises \<^verbatim>\<open>TypeError\<close>.\<close>

definition log_segments ::
  "(string \<Rightarrow> rat option) \<Rightarrow> logger option \<times> world \<Rightarrow> segment list option
     \<Rightarrow> (logger option \<times> world) \<times> exn option" where
  "log_segments pf p segments_arg =
     (case p of (lgo, w) \<Rightarrow>
        (case lgo of
           None \<Rightarrow> ((None, w), None)
         | Some lg \<Rightarrow>
             (case segments_arg of
                None \<Rightarrow> ((Some lg, w), Some (Exn ''TypeError'' ''NoneType object is not iterable''))
              | Some segments \<Rightarrow>
                  (case log_completed pf (lg, w) segments of
                     ((lg', w'), r) \<Rightarrow> ((Some lg', w'), r)))))"

text \<open>Lines 656 to 672: the body of the \<^verbatim>\<open>try\<close> statement.\<close>

definition dispatch ::
  "(string \<Rightarrow> rat option) \<Rightarrow> args \<Rightarrow> state \<Rightarrow> string \<Rightarrow> segment list option \<Rightarrow> vad_event option
     \<Rightarrow> state \<times> exn option" where
  "dispatch pf a p txt segments_arg vad =
     (case p of (ts, lgo, w) \<Rightarrow>
        (case (vad, lgo) of
           (Some ev, Some lg) \<Rightarrow>
             (case log_vad_event (lg, w) (vad_type ev) (get_or (vad_details ev) []) of
                ((lg', w'), r) \<Rightarrow> ((ts, Some lg', w'), r))
         | _ \<Rightarrow>
             (case log_segments pf (lgo, w) segments_arg of
                ((lgo', w'), Some e) \<Rightarrow> ((ts, lgo', w'), Some e)
              | ((lgo', w'), None) \<Rightarrow>
                  if trigger_words a \<noteq> [] then trigger_word_callback a (ts, lgo', w') txt segments_arg
                  else ((ts, lgo', w'), None))))"

text \<open>Lines 673 to 685: the \<^verbatim>\<open>except Exception\<close> clause. Its own \<^verbatim>\<open>open\<close> is outside any
  \<^verbatim>\<open>try\<close>: an exception it raises leaves the callback.\<close>

definition handle_error :: "exn \<Rightarrow> state \<Rightarrow> state \<times> exn option" where
  "handle_error e p =
     (case p of (ts, lgo, w) \<Rightarrow>
        (case (case lgo of
                 Some lg \<Rightarrow>
                   if enable_text lg then
                     (case text_log_fault w of
                        Some e' \<Rightarrow> (w, Some e')
                      | None \<Rightarrow> (w\<lparr>text_log := text_log w @ [TextError e (verbose lg)]\<rparr>, None))
                   else (w, None)
               | None \<Rightarrow> (w, None)) of
           (w', Some e') \<Rightarrow> ((ts, lgo, w'), Some e')
         | (w', None) \<Rightarrow>
             ((ts, lgo,
               if py_in ''critical'' (py_lower (exn_str e)) then print (MsgCritical e) w' else w'),
              None)))"

text \<open>\<^verbatim>\<open>combined_callback\<close>, lines 654 to 685. The second component is the exception that
  reaches the caller, if any.\<close>

definition combined_callback ::
  "(string \<Rightarrow> rat option) \<Rightarrow> args \<Rightarrow> state \<Rightarrow> string \<Rightarrow> segment list option \<Rightarrow> vad_event option
     \<Rightarrow> state \<times> exn option" where
  "combined_callback pf a p txt segments_arg vad =
     (case dispatch pf a p txt segments_arg vad of
        (q, None) \<Rightarrow> (q, None)
      | (q, Some e) \<Rightarrow> handle_error e q)"

section \<open>Notions used to state the properties\<close>

subsection \<open>Sequences of logger calls\<close>

text \<open>A call of one of the three logging methods, with its arguments.\<close>

datatype logger_call =
  CallSegment segment string
| CallVad "string option" details
| CallTrigger string "string option" "string option"

text \<open>The logger and the world after a call, whether it returned or raised.\<close>

fun apply_call :: "(string \<Rightarrow> rat option) \<Rightarrow> logger \<times> world \<Rightarrow> logger_call \<Rightarrow> logger \<times> world" where
  "apply_call pf p (CallSegment s ty) = fst (log_segment pf p s ty)"
| "apply_call pf p (CallVad ev d) = fst (log_vad_event p ev d)"
| "apply_call pf p (CallTrigger ev tw st) = fst (log_trigger_event p ev tw st)"

definition run_calls :: "(string \<Rightarrow> rat option) \<Rightarrow> logger \<times> world \<Rightarrow> logger_call list \<Rightarrow> logger \<times> world" where
  "run_calls pf p cs = foldl (apply_call pf) p cs"

text \<open>No statistic of \<open>a\<close> is larger than in \<open>b\<close>: the counters and the total duration by
  \<open>\<le>\<close>, the lists by extension at the end.\<close>

definition stats_le :: "session_stats \<Rightarrow> session_stats \<Rightarrow> bool" where
  "stats_le a b =
     (total_segments a \<le> total_segments b \<and>
      completed_segments a \<le> completed_segments b \<and>
      incomplete_segments a \<le> incomplete_segments b \<and>
      total_duration a \<le> total_duration b \<and>
      total_words a \<le> total_words b \<and>
      trigger_words_detected a \<le> trigger_words_detected b \<and>
      trigger_statements_saved a \<le> trigger_statements_saved b \<and>
      vad_triggers a \<le> vad_triggers b \<and>
      vad_silence_filters a \<le> vad_silence_filters b \<and>
      vad_total_events a \<le> vad_total_events b \<and>
      prefix (segment_sizes a) (segment_sizes b) \<and>
      prefix (segment_durations a) (segment_durations b) \<and>
      prefix (processing_times a) (processing_times b) \<and>
      prefix (silence_periods a) (silence_periods b))"

text \<open>The completed and the incomplete segments add up to the total.\<close>

definition balanced :: "session_stats \<Rightarrow> bool" where
  "balanced st = (completed_segments st + incomplete_segments st = total_segments st)"

subsection \<open>The trigger detector\<close>

text \<open>What holds of the trigger state whenever a callback starts: the collection timeout
  is the 5 seconds of line 479; a waiting detector has a trigger word, a segment index, a
  start time and a last change time; an idle one has no collection deadline.\<close>

definition ts_inv :: "trigger_state \<Rightarrow> bool" where
  "ts_inv ts =
     (collection_timeout ts = 5 \<and>
      (if waiting ts
       then trigger_word ts \<noteq> None \<and> 0 \<le> trigger_segment_index ts \<and>
            start_time ts \<noteq> None \<and> last_change_time ts \<noteq> None
       else max_collection_time ts = None))"

text \<open>The \<^verbatim>\<open>try\<close> block that saves a statement runs to its end: the trigger output file
  can be opened, and \<^verbatim>\<open>log_trigger_event\<close>, which writes to the text log when text logging
  and verbose mode are both on, can open the text log.\<close>

definition save_ok :: "logger option \<Rightarrow> world \<Rightarrow> bool" where
  "save_ok lgo w =
     (trigger_file_fault w = None \<and>
      (case lgo of
         None \<Rightarrow> True
       | Some lg \<Rightarrow> enable_text lg \<and> verbose lg \<longrightarrow> text_log_fault w = None))"



text \<open>The segment has a text that, trimmed, is not empty and contains the trigger word,
  letter case apart.\<close>

definition trigger_match :: "string \<Rightarrow> segment \<Rightarrow> bool" where
  "trigger_match tw seg =
     (py_strip (get_or (seg_text seg) '''') \<noteq> [] \<and>
      sublist (py_lower tw) (py_lower (py_strip (get_or (seg_text seg) ''''))))"

subsection \<open>The combined callback\<close>

text \<open>The \<^verbatim>\<open>except\<close> clause of the combined callback can write its report: text logging is
  off, or the text log can be opened.\<close>

definition can_report :: "logger option \<Rightarrow> world \<Rightarrow> bool" where
  "can_report lgo w =
     (case lgo of None \<Rightarrow> True | Some lg \<Rightarrow> enable_text lg \<longrightarrow> text_log_fault w = None)"

subsection \<open>Sample inputs\<close>

text \<open>A world whose clock advances one second per reading and whose files can all be
  written.\<close>

definition sample_world :: world where
  "sample_world =
     \<lparr>clock = (\<lambda>n. 1000000 * int n), reads = 0, text_log = [], text_log_fault = None,
      json_log = None, json_log_fault = None, trigger_file = [], trigger_file_fault = None,
      console = [], sidecar = (\<lambda>s d. (True, []))\<rparr>"

text \<open>The sample world after three readings of the clock: the time is 3 seconds.\<close>

definition sample_world_3 :: world where
  "sample_world_3 = sample_world\<lparr>reads := 3\<rparr>"

text \<open>The sample world with a text log that cannot be opened.\<close>

definition sample_world_no_text_log :: world where
  "sample_world_no_text_log =
     sample_world\<lparr>text_log_fault := Some (Exn ''PermissionError'' ''Permission denied'')\<rparr>"

text \<open>A completed segment with the given text and with start and end 0.\<close>

definition sample_segment :: "string \<Rightarrow> segment" where
  "sample_segment t =
     \<lparr>seg_text = Some t, seg_start = Some (PNum 0), seg_end = Some (PNum 0),
      seg_completed = Some True, seg_no_speech_prob = None\<rparr>"

text \<open>The same without the timing fields.\<close>

definition untimed_segment :: "string \<Rightarrow> segment" where
  "untimed_segment t =
     \<lparr>seg_text = Some t, seg_start = None, seg_end = None,
      seg_completed = Some True, seg_no_speech_prob = None\<rparr>"

text \<open>A \<^verbatim>\<open>float\<close> that accepts no string.\<close>

definition no_float :: "string \<Rightarrow> rat option" where
  "no_float s = None"

text \<open>One trigger word, no typing into Windows.\<close>

definition sample_args :: args where
  "sample_args =
     \<lparr>trigger_words = [''hello''], wsl_auto_type = False, type_delay_ms = 100,
      wsl_typing_available = False\<rparr>"

text \<open>A detector that found \<open>hello\<close> in segment 0 at time 0, with a stability delay of 1.5
  seconds.\<close>

definition sample_waiting :: trigger_state where
  "sample_waiting =
     (init_trigger_state (3/2))
       \<lparr>waiting := True, trigger_word := Some ''hello'', trigger_segment_index := 0,
        start_time := Some 0, last_change_time := Some 0, waiting_segment_count := 1\<rparr>"

text \<open>A VAD sub-event of the silence filter.\<close>

definition sample_vad_event :: vad_event where
  "sample_vad_event = \<lparr>vad_type = Some ''vad_filter'', vad_details = None\<rparr>"

section \<open>The logger: deduplication and statistics\<close>

subsection \<open>The writes\<close>

lemma write_json_logger:
  "fst (fst (write_json i (lg, w))) =
     (if enable_json lg then lg\<lparr>json_segments := json_segments lg @ [SegmentInfo i]\<rparr> else lg)"
  by (simp add: write_json_def Let_def split: option.splits)

lemma write_text_logger: "fst (fst (write_text i (lg, w))) = lg"
  by (simp add: write_text_def split: option.splits)

lemma write_logs_logger:
  "fst (fst (write_logs i (lg, w))) =
     (if enable_json lg then lg\<lparr>json_segments := json_segments lg @ [SegmentInfo i]\<rparr> else lg)"
proof -
  obtain lg1 w1 r1 where wj: "write_json i (lg, w) = ((lg1, w1), r1)"
    by (metis surj_pair)
  obtain lg2 w2 r2 where wt: "write_text i (lg1, w1) = ((lg2, w2), r2)"
    by (metis surj_pair)
  have "lg2 = lg1" using write_text_logger [of i lg1 w1] wt by simp
  moreover have "lg1 = (if enable_json lg then lg\<lparr>json_segments := json_segments lg @ [SegmentInfo i]\<rparr> else lg)"
    using write_json_logger [of i lg w] wj by simp
  ultimately show ?thesis
    using wj wt by (cases r1; cases r2) (simp_all add: write_logs_def)
qed

subsection \<open>Counting a segment\<close>

lemma count_words_fst:
  "fst (count_words s (st, i)) =
     st\<lparr>total_words := total_words st +
          (case seg_text s of None \<Rightarrow> 0 | Some t \<Rightarrow> int (length (py_split t)))\<rparr>"
  by (simp add: count_words_def Let_def split: option.splits)

lemma record_timing_le: "stats_le st (fst (record_timing pf s (st, i)))"
  by (simp add: record_timing_def stats_le_def Let_def split: option.splits)

lemma record_timing_counts:
  "total_segments (fst (record_timing pf s (st, i))) = total_segments st"
  "completed_segments (fst (record_timing pf s (st, i))) = completed_segments st"
  "incomplete_segments (fst (record_timing pf s (st, i))) = incomplete_segments st"
  by (simp_all add: record_timing_def Let_def split: option.splits)

lemma count_segment_le: "stats_le st (count_segment s st)"
  by (simp add: count_segment_def stats_le_def Let_def)

lemma stats_le_trans: "stats_le a b \<Longrightarrow> stats_le b c \<Longrightarrow> stats_le a c"
  unfolding stats_le_def by (meson order_trans prefix_order.order_trans)

lemma stats_le_refl: "stats_le a a"
  by (simp add: stats_le_def)

lemma counted_le:
  "stats_le st (fst (record_timing pf s (count_words s (count_segment s st, i))))"
proof -
  obtain st1 i1 where cw: "count_words s (count_segment s st, i) = (st1, i1)"
    by (metis surj_pair)
  have "st1 = (count_segment s st)\<lparr>total_words := total_words (count_segment s st) +
          (case seg_text s of None \<Rightarrow> 0 | Some t \<Rightarrow> int (length (py_split t)))\<rparr>"
    using count_words_fst [of s "count_segment s st" i] cw by simp
  then have "stats_le (count_segment s st) st1"
    by (simp add: stats_le_def split: option.splits)
  with count_segment_le [of st s] have "stats_le st st1"
    by (rule stats_le_trans)
  then show ?thesis
    using record_timing_le [of st1 pf s i1] cw by (simp add: stats_le_trans)
qed

lemma counted_counts:
  fixes st i s pf
  defines "c \<equiv> fst (record_timing pf s (count_words s (count_segment s st, i)))"
  shows "total_segments c = total_segments st + 1"
    and "completed_segments c = completed_segments st + (if is_completed s then 1 else 0)"
    and "incomplete_segments c = incomplete_segments st + (if is_completed s then 0 else 1)"
proof -
  obtain st1 i1 where cw: "count_words s (count_segment s st, i) = (st1, i1)"
    by (metis surj_pair)
  have st1: "st1 = (count_segment s st)\<lparr>total_words := total_words (count_segment s st) +
          (case seg_text s of None \<Rightarrow> 0 | Some t \<Rightarrow> int (length (py_split t)))\<rparr>"
    using count_words_fst [of s "count_segment s st" i] cw by simp
  show "total_segments c = total_segments st + 1"
    and "completed_segments c = completed_segments st + (if is_completed s then 1 else 0)"
    and "incomplete_segments c = incomplete_segments st + (if is_completed s then 0 else 1)"
    unfolding c_def cw by (simp_all add: record_timing_counts st1 count_segment_def Let_def)
qed

subsection \<open>\<^verbatim>\<open>log_segment\<close>\<close>

lemma new_segment_stats:
  "(\<And>i. P (fst (record_timing pf s (count_words s (count_segment s (stats lg), i))))) \<Longrightarrow>
   P (stats (fst (fst (new_segment pf (lg, w) s ty))))"
  by (simp add: new_segment_def Let_def now_def case_prod_beta)

lemma new_segment_fields:
  "logged_segments (fst (fst (new_segment pf (lg, w) s ty))) = insert (segment_key s) (logged_segments lg)"
  "json_segments (fst (fst (new_segment pf (lg, w) s ty))) = json_segments lg"
  "enable_json (fst (fst (new_segment pf (lg, w) s ty))) = enable_json lg"
  "enable_text (fst (fst (new_segment pf (lg, w) s ty))) = enable_text lg"
  "verbose (fst (fst (new_segment pf (lg, w) s ty))) = verbose lg"
  by (simp_all add: new_segment_def Let_def now_def case_prod_beta)

lemma log_segment_seen:
  "segment_key s \<in> logged_segments (fst p) \<Longrightarrow> log_segment pf p s ty = (p, Return None)"
  by (simp add: log_segment_def)

lemma log_segment_new_logger:
  assumes "segment_key s \<notin> logged_segments lg"
  shows "fst (fst (log_segment pf (lg, w) s ty)) =
     (let lg3 = fst (fst (new_segment pf (lg, w) s ty)); i = snd (new_segment pf (lg, w) s ty)
      in if enable_json lg then lg3\<lparr>json_segments := json_segments lg @ [SegmentInfo i]\<rparr> else lg3)"
proof -
  obtain lg3 w3 i where ns: "new_segment pf (lg, w) s ty = ((lg3, w3), i)"
    by (metis surj_pair)
  have "enable_json lg3 = enable_json lg" "json_segments lg3 = json_segments lg"
    using new_segment_fields(2,3) [of pf lg w s ty] ns by simp_all
  then show ?thesis
    using assms ns by (simp add: log_segment_def write_logs_logger)
qed

lemma log_segment_logged:
  "logged_segments (fst (fst (log_segment pf (lg, w) s ty))) = insert (segment_key s) (logged_segments lg)"
proof (cases "segment_key s \<in> logged_segments lg")
  case True
  then show ?thesis by (simp add: log_segment_seen insert_absorb)
next
  case False
  then show ?thesis
    by (simp add: log_segment_new_logger Let_def new_segment_fields)
qed

lemma log_segment_new_stats:
  assumes "segment_key s \<notin> logged_segments lg"
    and "\<And>i. P (fst (record_timing pf s (count_words s (count_segment s (stats lg), i))))"
  shows "P (stats (fst (fst (log_segment pf (lg, w) s ty))))"
proof -
  have "stats (fst (fst (log_segment pf (lg, w) s ty))) = stats (fst (fst (new_segment pf (lg, w) s ty)))"
    using assms(1) by (simp add: log_segment_new_logger Let_def)
  then show ?thesis
    using new_segment_stats [of P pf s lg w ty] assms(2) by simp
qed

lemma log_segment_le: "stats_le (stats (fst p)) (stats (fst (fst (log_segment pf p s ty))))"
proof (cases p)
  case (Pair lg w)
  show ?thesis
  proof (cases "segment_key s \<in> logged_segments lg")
    case True
    then show ?thesis using Pair by (simp add: log_segment_seen stats_le_refl)
  next
    case False
    then show ?thesis
      unfolding Pair fst_conv by (rule log_segment_new_stats) (rule counted_le)
  qed
qed

lemma log_segment_balanced:
  "balanced (stats (fst p)) \<Longrightarrow> balanced (stats (fst (fst (log_segment pf p s ty))))"
proof (cases p)
  case (Pair lg w)
  assume b: "balanced (stats (fst p))"
  show ?thesis
  proof (cases "segment_key s \<in> logged_segments lg")
    case True
    then show ?thesis using Pair b by (simp add: log_segment_seen)
  next
    case False
    have "\<And>i. balanced (fst (record_timing pf s (count_words s (count_segment s (stats lg), i))))"
      using b Pair by (simp add: balanced_def counted_counts)
    with False show ?thesis
      unfolding Pair fst_conv by (rule log_segment_new_stats)
  qed
qed

subsection \<open>The event loggers\<close>

lemma log_vad_event_logger:
  "stats_le (stats lg) (stats (fst (fst (log_vad_event (lg, w) ev d))))"
  "balanced (stats lg) \<Longrightarrow> balanced (stats (fst (fst (log_vad_event (lg, w) ev d))))"
  "logged_segments (fst (fst (log_vad_event (lg, w) ev d))) = logged_segments lg"
  by (simp_all add: log_vad_event_def Let_def now_def stats_le_def balanced_def split: option.splits)

lemma log_trigger_event_logger:
  "stats_le (stats lg) (stats (fst (fst (log_trigger_event (lg, w) ev tw st))))"
  "balanced (stats lg) \<Longrightarrow> balanced (stats (fst (fst (log_trigger_event (lg, w) ev tw st))))"
  "logged_segments (fst (fst (log_trigger_event (lg, w) ev tw st))) = logged_segments lg"
  by (simp_all add: log_trigger_event_def Let_def now_def stats_le_def balanced_def split: option.splits)

lemma apply_call_le: "stats_le (stats (fst p)) (stats (fst (apply_call pf p c)))"
  by (cases p; cases c) (simp_all add: log_segment_le [where p = "(a, b)" for a b, simplified] log_vad_event_logger log_trigger_event_logger)

lemma apply_call_balanced: "balanced (stats (fst p)) \<Longrightarrow> balanced (stats (fst (apply_call pf p c)))"
  by (cases p; cases c) (simp_all add: log_segment_balanced [where p = "(a, b)" for a b, simplified] log_vad_event_logger log_trigger_event_logger)


lemma run_calls_snoc: "run_calls pf p (cs @ [c]) = apply_call pf (run_calls pf p cs) c"
  by (simp add: run_calls_def)

lemma run_calls_balanced: "balanced (stats (fst p)) \<Longrightarrow> balanced (stats (fst (run_calls pf p cs)))"
  by (induction cs rule: rev_induct) (simp_all add: run_calls_snoc apply_call_balanced, simp add: run_calls_def)




text \<open>
  Claim C6. In every statistics state reached from the initial one by a sequence of
  \<^verbatim>\<open>log_segment\<close>, \<^verbatim>\<open>log_vad_event\<close> and \<^verbatim>\<open>log_trigger_event\<close> calls, the completed and the
  incomplete segments add up to the total; and no call, from any state, lowers a
  statistic.
\<close>

theorem stats_balanced_monotone:
  "balanced (stats (fst (run_calls pf (init_logger ej et vb t0, w) cs))) \<and>
   stats_le (stats (fst p)) (stats (fst (apply_call pf p c)))"
proof
  have "balanced (stats (fst (init_logger ej et vb t0, w)))"
    by (simp add: balanced_def init_logger_def init_stats_def)
  then show "balanced (stats (fst (run_calls pf (init_logger ej et vb t0, w) cs)))"
    by (rule run_calls_balanced)
  show "stats_le (stats (fst p)) (stats (fst (apply_call pf p c)))"
    by (rule apply_call_le)
qed

theorem stats_balanced_monotone_witness:
  "balanced (stats (fst (run_calls no_float (init_logger True True False 0, sample_world)
      [CallSegment (sample_segment ''hello'') ''transcription'', CallVad (Some ''vad_filter'') []]))) \<and>
   stats_le (stats (fst (init_logger True True False 0, sample_world)))
     (stats (fst (apply_call no_float (init_logger True True False 0, sample_world)
        (CallTrigger ''trigger_detected'' (Some ''hello'') None))))"
  using stats_balanced_monotone [of no_float True True False 0 sample_world
      "[CallSegment (sample_segment ''hello'') ''transcription'', CallVad (Some ''vad_filter'') []]"
      "(init_logger True True False 0, sample_world)"
      "CallTrigger ''trigger_detected'' (Some ''hello'') None"]
  by simp

text \<open>
  Claim C10. In the key of \<^verbatim>\<open>log_segment\<close> a missing text counts as the empty string and
  a missing start or end as 0. So of two segments with the same trimmed text, one with
  start and end equal to 0 and one without these fields, the one delivered second is
  skipped as a duplicate of the first.
\<close>

theorem segment_key_defaults:
  "segment_key s =
     (py_strip (case seg_text s of None \<Rightarrow> [] | Some t \<Rightarrow> t),
      (case seg_start s of None \<Rightarrow> PNum 0 | Some v \<Rightarrow> v),
      (case seg_end s of None \<Rightarrow> PNum 0 | Some v \<Rightarrow> v)) \<and>
   (py_strip (case seg_text a of None \<Rightarrow> [] | Some t \<Rightarrow> t) =
      py_strip (case seg_text b of None \<Rightarrow> [] | Some t \<Rightarrow> t) \<and>
    seg_start a = Some (PNum 0) \<and> seg_end a = Some (PNum 0) \<and>
    seg_start b = None \<and> seg_end b = None \<longrightarrow>
      log_segment pf (fst (log_segment pf p a ty)) b ty' = (fst (log_segment pf p a ty), Return None) \<and>
      log_segment pf (fst (log_segment pf p b ty)) a ty' = (fst (log_segment pf p b ty), Return None))"
proof (intro conjI impI)
  show "segment_key s =
     (py_strip (case seg_text s of None \<Rightarrow> [] | Some t \<Rightarrow> t),
      (case seg_start s of None \<Rightarrow> PNum 0 | Some v \<Rightarrow> v),
      (case seg_end s of None \<Rightarrow> PNum 0 | Some v \<Rightarrow> v))"
    by (simp add: segment_key_def split: option.splits)
next
  assume h: "py_strip (case seg_text a of None \<Rightarrow> [] | Some t \<Rightarrow> t) =
      py_strip (case seg_text b of None \<Rightarrow> [] | Some t \<Rightarrow> t) \<and>
    seg_start a = Some (PNum 0) \<and> seg_end a = Some (PNum 0) \<and>
    seg_start b = None \<and> seg_end b = None"
  then have k: "segment_key b = segment_key a"
    by (simp add: segment_key_def split: option.splits)
  obtain lg w where p: "p = (lg, w)" by (metis surj_pair)
  have "segment_key b \<in> logged_segments (fst (fst (log_segment pf p a ty)))"
    unfolding p by (simp add: log_segment_logged k)
  then show "log_segment pf (fst (log_segment pf p a ty)) b ty' = (fst (log_segment pf p a ty), Return None)"
    by (rule log_segment_seen)
  have "segment_key a \<in> logged_segments (fst (fst (log_segment pf p b ty)))"
    unfolding p by (simp add: log_segment_logged k)
  then show "log_segment pf (fst (log_segment pf p b ty)) a ty' = (fst (log_segment pf p b ty), Return None)"
    by (rule log_segment_seen)
qed

theorem segment_key_defaults_witness:
  "py_strip (case seg_text (sample_segment ''hi'') of None \<Rightarrow> [] | Some t \<Rightarrow> t) =
      py_strip (case seg_text (untimed_segment '' hi '') of None \<Rightarrow> [] | Some t \<Rightarrow> t) \<and>
   seg_start (sample_segment ''hi'') = Some (PNum 0) \<and> seg_end (sample_segment ''hi'') = Some (PNum 0) \<and>
   seg_start (untimed_segment '' hi '') = None \<and> seg_end (untimed_segment '' hi '') = None \<and>
   log_segment no_float
     (fst (log_segment no_float (init_logger True True False 0, sample_world) (sample_segment ''hi'') ''transcription''))
     (untimed_segment '' hi '') ''transcription'' =
     (fst (log_segment no_float (init_logger True True False 0, sample_world) (sample_segment ''hi'') ''transcription''),
      Return None) \<and>
   log_segment no_float
     (fst (log_segment no_float (init_logger True True False 0, sample_world) (untimed_segment '' hi '') ''transcription''))
     (sample_segment ''hi'') ''transcription'' =
     (fst (log_segment no_float (init_logger True True False 0, sample_world) (untimed_segment '' hi '') ''transcription''),
      Return None)"
proof -
  have k: "py_strip (case seg_text (sample_segment ''hi'') of None \<Rightarrow> [] | Some t \<Rightarrow> t) =
      py_strip (case seg_text (untimed_segment '' hi '') of None \<Rightarrow> [] | Some t \<Rightarrow> t)"
    by (simp add: sample_segment_def untimed_segment_def py_strip_def isspace_def)
  have f: "seg_start (sample_segment ''hi'') = Some (PNum 0)" "seg_end (sample_segment ''hi'') = Some (PNum 0)"
    "seg_start (untimed_segment '' hi '') = None" "seg_end (untimed_segment '' hi '') = None"
    by (simp_all add: sample_segment_def untimed_segment_def)
  show ?thesis
    using k f
      segment_key_defaults [of "sample_segment ''hi''" "sample_segment ''hi''" "untimed_segment '' hi ''"
        no_float "(init_logger True True False 0, sample_world)" "''transcription''" "''transcription''"]
    by simp
qed

section \<open>The trigger detector\<close>

subsection \<open>Time\<close>

lemma timedelta_seconds_5: "timedelta_seconds 5 = 5000000"
  by (simp add: timedelta_seconds_def round_half_even_def)

lemma timedelta_seconds_2: "timedelta_seconds 2 = 2000000"
  by (simp add: timedelta_seconds_def round_half_even_def)

subsection \<open>What the helpers leave alone\<close>

lemma print_frame:
  "trigger_file (print m w) = trigger_file w"
  "trigger_file_fault (print m w) = trigger_file_fault w"
  "text_log_fault (print m w) = text_log_fault w"
  "text_log (print m w) = text_log w"
  "clock (print m w) = clock w"
  "reads (print m w) = reads w"
  by (simp_all add: print_def)

lemma auto_type_frame:
  "trigger_file (auto_type a s w) = trigger_file w"
  "trigger_file_fault (auto_type a s w) = trigger_file_fault w"
  "text_log_fault (auto_type a s w) = text_log_fault w"
  "text_log (auto_type a s w) = text_log w"
  "clock (auto_type a s w) = clock w"
  "reads (auto_type a s w) = reads w"
  by (simp_all add: auto_type_def print_def Let_def case_prod_beta)

lemma log_trigger_event_raises:
  "snd (log_trigger_event (lg, w) ev tw st) =
     (if enable_text lg \<and> verbose lg then text_log_fault w else None)"
  by (simp add: log_trigger_event_def Let_def now_def split: option.splits)

lemma log_trigger_event_frame:
  "trigger_file (snd (fst (log_trigger_event (lg, w) ev tw st))) = trigger_file w"
  "trigger_file_fault (snd (fst (log_trigger_event (lg, w) ev tw st))) = trigger_file_fault w"
  "text_log_fault (snd (fst (log_trigger_event (lg, w) ev tw st))) = text_log_fault w"
  by (simp_all add: log_trigger_event_def Let_def now_def split: option.splits)

subsection \<open>Saving a statement\<close>

lemma save_statement_fault:
  "trigger_file_fault w = Some e \<Longrightarrow>
   save_statement a t post (ts, lgo, w) = (ts, lgo, print (MsgWriteWarning e) w)"
  by (simp add: save_statement_def)

lemma save_statement_ts:
  "fst (save_statement a t post (ts, lgo, w)) =
     (if save_ok lgo w
      then ts\<lparr>last_saved_text := py_strip post, cooldown_until := Some (t + 2000000)\<rparr>
      else ts)"
proof (cases "trigger_file_fault w")
  case (Some e)
  then show ?thesis by (simp add: save_statement_fault save_ok_def)
next
  case None
  show ?thesis
  proof (cases lgo)
    case None
    then show ?thesis
      using \<open>trigger_file_fault w = None\<close>
      by (simp add: save_statement_def save_ok_def Let_def timedelta_seconds_2)
  next
    case (Some lg)
    define w3 where "w3 = auto_type a (py_strip post)
      (print (MsgStatementSaved (preview (py_strip post)))
        (w\<lparr>trigger_file := trigger_file w @ [TriggerEntry t (trigger_word ts) (py_strip post)]\<rparr>))"
    obtain lg' w4 r where l: "log_trigger_event (lg, w3) ''statement_saved'' (trigger_word ts)
        (Some (py_strip post)) = ((lg', w4), r)"
      by (metis surj_pair)
    have f: "text_log_fault w3 = text_log_fault w"
      by (simp add: w3_def auto_type_frame print_frame)
    have r: "r = (if enable_text lg \<and> verbose lg then text_log_fault w else None)"
      using log_trigger_event_raises [of lg w3 "''statement_saved''" "trigger_word ts" "Some (py_strip post)"] l f
      by simp
    have s: "save_ok (Some lg) w = (r = None)"
      using \<open>trigger_file_fault w = None\<close> r by (auto simp: save_ok_def)
    show ?thesis
      using \<open>trigger_file_fault w = None\<close> Some l
      by (cases r) (simp_all add: s save_statement_def Let_def timedelta_seconds_2 w3_def [symmetric])
  qed
qed

lemma save_statement_file:
  "trigger_file (snd (snd (save_statement a t post (ts, lgo, w)))) =
     (if trigger_file_fault w = None
      then trigger_file w @ [TriggerEntry t (trigger_word ts) (py_strip post)]
      else trigger_file w)"
proof (cases "trigger_file_fault w")
  case (Some e)
  then show ?thesis by (simp add: save_statement_fault print_frame)
next
  case None
  show ?thesis
  proof (cases lgo)
    case None
    then show ?thesis
      using \<open>trigger_file_fault w = None\<close>
      by (simp add: save_statement_def Let_def auto_type_frame print_frame)
  next
    case (Some lg)
    define w3 where "w3 = auto_type a (py_strip post)
      (print (MsgStatementSaved (preview (py_strip post)))
        (w\<lparr>trigger_file := trigger_file w @ [TriggerEntry t (trigger_word ts) (py_strip post)]\<rparr>))"
    obtain lg' w4 r where l: "log_trigger_event (lg, w3) ''statement_saved'' (trigger_word ts)
        (Some (py_strip post)) = ((lg', w4), r)"
      by (metis surj_pair)
    have f: "trigger_file w3 = trigger_file w @ [TriggerEntry t (trigger_word ts) (py_strip post)]"
      by (simp add: w3_def auto_type_frame print_frame)
    have "trigger_file w4 = trigger_file w3"
      using log_trigger_event_frame(1) [of lg w3 "''statement_saved''" "trigger_word ts" "Some (py_strip post)"] l
      by simp
    then show ?thesis
      using \<open>trigger_file_fault w = None\<close> Some l f
      by (cases r) (simp_all add: save_statement_def Let_def w3_def [symmetric] print_frame)
  qed
qed

subsection \<open>Finalization\<close>

lemma extract_returns:
  "trigger_word ts = Some tw \<Longrightarrow> \<exists>post. extract_post_trigger ts segs = Return post"
  by (simp add: extract_post_trigger_def Let_def)


lemma reset_state_fields:
  "waiting (reset_state ts n) = False"
  "trigger_word (reset_state ts n) = None"
  "trigger_segment_index (reset_state ts n) = -1"
  "trigger_position (reset_state ts n) = -1"
  "start_time (reset_state ts n) = None"
  "last_change_time (reset_state ts n) = None"
  "max_collection_time (reset_state ts n) = None"
  "last_processed_segment_count (reset_state ts n) = n"
  "last_saved_text (reset_state ts n) = last_saved_text ts"
  "cooldown_until (reset_state ts n) = cooldown_until ts"
  "stability_delay (reset_state ts n) = stability_delay ts"
  "collection_timeout (reset_state ts n) = collection_timeout ts"
  "waiting_segment_count (reset_state ts n) = waiting_segment_count ts"
  by (simp_all add: reset_state_def)

lemma finalize_no_index:
  "trigger_segment_index ts < 0 \<Longrightarrow>
   finalize a t segs (ts, lgo, w) = ((reset_state ts (length segs), lgo, w), None)"
  by (simp add: finalize_def)

lemma finalize_skip:
  "0 \<le> trigger_segment_index ts \<Longrightarrow> extract_post_trigger ts segs = Return post \<Longrightarrow>
   \<not> should_save ts post \<Longrightarrow>
   finalize a t segs (ts, lgo, w) = ((reset_state ts (length segs), lgo, w), None)"
  by (simp add: finalize_def)

lemma finalize_save:
  "0 \<le> trigger_segment_index ts \<Longrightarrow> extract_post_trigger ts segs = Return post \<Longrightarrow>
   should_save ts post \<Longrightarrow>
   finalize a t segs (ts, lgo, w) =
     ((reset_state (fst (save_statement a t post (ts, lgo, w))) (length segs),
       snd (save_statement a t post (ts, lgo, w))), None)"
  by (simp add: finalize_def case_prod_beta)

lemma finalize_ts:
  assumes "0 \<le> trigger_segment_index ts" and "extract_post_trigger ts segs = Return post"
  shows "fst (fst (finalize a t segs (ts, lgo, w))) =
     reset_state
       (if should_save ts post \<and> save_ok lgo w
        then ts\<lparr>last_saved_text := py_strip post, cooldown_until := Some (t + 2000000)\<rparr>
        else ts) (length segs)"
proof (cases "should_save ts post")
  case True
  then show ?thesis
    using assms by (simp add: finalize_save save_statement_ts)
next
  case False
  then show ?thesis
    using assms by (simp add: finalize_skip)
qed

lemma finalize_file:
  assumes "0 \<le> trigger_segment_index ts" and "extract_post_trigger ts segs = Return post"
  shows "trigger_file (snd (snd (fst (finalize a t segs (ts, lgo, w))))) =
     (if should_save ts post \<and> trigger_file_fault w = None
      then trigger_file w @ [TriggerEntry t (trigger_word ts) (py_strip post)]
      else trigger_file w)"
proof (cases "should_save ts post")
  case True
  then show ?thesis
    using assms by (simp add: finalize_save save_statement_file)
next
  case False
  then show ?thesis
    using assms by (simp add: finalize_skip)
qed

lemma finalize_returns:
  assumes "0 \<le> trigger_segment_index ts \<longrightarrow> trigger_word ts \<noteq> None"
  shows "snd (finalize a t segs (ts, lgo, w)) = None"
proof (cases "0 \<le> trigger_segment_index ts")
  case True
  with assms obtain tw where "trigger_word ts = Some tw" by auto
  then obtain post where p: "extract_post_trigger ts segs = Return post"
    using extract_returns by blast
  show ?thesis
    using True p by (cases "should_save ts post") (simp_all add: finalize_save finalize_skip)
next
  case False
  then show ?thesis by (simp add: finalize_no_index)
qed

lemma finalize_state_reset:
  assumes "0 \<le> trigger_segment_index ts \<longrightarrow> trigger_word ts \<noteq> None"
  shows "\<exists>ts0. fst (fst (finalize a t segs (ts, lgo, w))) = reset_state ts0 (length segs) \<and>
           stability_delay ts0 = stability_delay ts \<and>
           collection_timeout ts0 = collection_timeout ts \<and>
           waiting_segment_count ts0 = waiting_segment_count ts \<and>
           (\<not> save_ok lgo w \<longrightarrow> ts0 = ts)"
proof (cases "0 \<le> trigger_segment_index ts")
  case True
  with assms obtain tw where "trigger_word ts = Some tw" by auto
  then obtain post where p: "extract_post_trigger ts segs = Return post"
    using extract_returns by blast
  show ?thesis
    unfolding finalize_ts [OF True p]
    by (rule exI [where x = "if should_save ts post \<and> save_ok lgo w
        then ts\<lparr>last_saved_text := py_strip post, cooldown_until := Some (t + 2000000)\<rparr>
        else ts"]) simp
next
  case False
  then show ?thesis
    by (simp add: finalize_no_index) (rule exI [where x = ts], simp)
qed



text \<open>
  Claim C7. Every finalization of a waiting detector returns without an exception and
  leaves the detector idle: not waiting, no trigger word, index and position \<open>-1\<close>, no
  start time, last change time or collection deadline, and the watermark at the current
  segment count, whether or not a statement was saved. When the save fails (the trigger
  output file cannot be opened, or logging the saved statement raises), the last saved
  text and the cooldown are unchanged; when the file cannot be opened it is unchanged too.
\<close>

theorem finalize_resets:
  assumes "ts_inv ts" and "waiting ts"
  shows "let r = finalize a t segs (ts, lgo, w); ts' = fst (fst r); w' = snd (snd (fst r))
         in snd r = None \<and>
            \<not> waiting ts' \<and> trigger_word ts' = None \<and> trigger_segment_index ts' = -1 \<and>
            trigger_position ts' = -1 \<and> start_time ts' = None \<and> last_change_time ts' = None \<and>
            max_collection_time ts' = None \<and> last_processed_segment_count ts' = length segs \<and>
            (\<not> save_ok lgo w \<longrightarrow>
               last_saved_text ts' = last_saved_text ts \<and> cooldown_until ts' = cooldown_until ts) \<and>
            (trigger_file_fault w \<noteq> None \<longrightarrow> trigger_file w' = trigger_file w)"
proof -
  from assms obtain tw where tw: "trigger_word ts = Some tw" and ix: "0 \<le> trigger_segment_index ts"
    by (auto simp: ts_inv_def)
  then have h: "0 \<le> trigger_segment_index ts \<longrightarrow> trigger_word ts \<noteq> None" by simp
  obtain post where p: "extract_post_trigger ts segs = Return post"
    using extract_returns [OF tw] by blast
  obtain ts0 where ts0: "fst (fst (finalize a t segs (ts, lgo, w))) = reset_state ts0 (length segs)"
    and keep: "\<not> save_ok lgo w \<longrightarrow> ts0 = ts"
    using finalize_state_reset [OF h] by blast
  have f: "trigger_file_fault w \<noteq> None \<longrightarrow>
      trigger_file (snd (snd (fst (finalize a t segs (ts, lgo, w))))) = trigger_file w"
    by (simp add: finalize_file [OF ix p])
  show ?thesis
    unfolding Let_def ts0 using keep f finalize_returns [OF h, of a t segs lgo w]
    by (auto simp: reset_state_fields)
qed

subsection \<open>A callback in the waiting state\<close>

lemma update_waiting_fields:
  "max_collection_time (fst (update_waiting ts t n)) =
     Some (case max_collection_time ts of
             None \<Rightarrow> t + timedelta_seconds (collection_timeout ts) | Some d \<Rightarrow> d)"
  "last_change_time (fst (update_waiting ts t n)) =
     (if waiting_segment_count ts < n then Some t else last_change_time ts)"
  "waiting_segment_count (fst (update_waiting ts t n)) =
     (if waiting_segment_count ts < n then n else waiting_segment_count ts)"
  "waiting (fst (update_waiting ts t n)) = waiting ts"
  "trigger_word (fst (update_waiting ts t n)) = trigger_word ts"
  "trigger_segment_index (fst (update_waiting ts t n)) = trigger_segment_index ts"
  "start_time (fst (update_waiting ts t n)) = start_time ts"
  "collection_timeout (fst (update_waiting ts t n)) = collection_timeout ts"
  "stability_delay (fst (update_waiting ts t n)) = stability_delay ts"
  by (simp_all add: update_waiting_def Let_def)

lemma update_waiting_decides:
  assumes "start_time ts = Some t0" and "last_change_time ts = Some lc"
  shows "snd (update_waiting ts t n) =
     ((case max_collection_time ts of
         None \<Rightarrow> t + timedelta_seconds (collection_timeout ts) | Some d \<Rightarrow> d) \<le> t \<or>
      (stability_delay ts \<le> total_seconds (t - (if waiting_segment_count ts < n then t else lc)) \<and>
       2 \<le> total_seconds (t - t0)))"
  using assms by (simp add: update_waiting_def Let_def)

lemma callback_waiting:
  assumes "trigger_words a \<noteq> []" and "segs \<noteq> []"
    and "\<not> in_cooldown ts (clock w (reads w))" and "waiting ts"
  shows "trigger_word_callback a (ts, lgo, w) txt (Some segs) =
     (if snd (update_waiting ts (clock w (reads w)) (length segs))
      then finalize a (clock w (reads w)) segs
             (fst (update_waiting ts (clock w (reads w)) (length segs)), lgo,
              w\<lparr>reads := Suc (reads w)\<rparr>)
      else ((fst (update_waiting ts (clock w (reads w)) (length segs)), lgo,
             w\<lparr>reads := Suc (reads w)\<rparr>), None))"
  using assms by (simp add: trigger_word_callback_def now_def Let_def case_prod_beta)

lemma callback_ignored:
  "trigger_words a = [] \<or> segs = None \<or> segs = Some [] \<Longrightarrow>
   trigger_word_callback a p txt segs = (p, None)"
  by (cases p) (auto simp: trigger_word_callback_def split: option.splits)

lemma callback_cooldown:
  assumes "trigger_words a \<noteq> []" and "segs \<noteq> []" and "in_cooldown ts (clock w (reads w))"
  shows "trigger_word_callback a (ts, lgo, w) txt (Some segs) =
     ((ts, lgo, w\<lparr>reads := Suc (reads w)\<rparr>), None)"
  using assms by (simp add: trigger_word_callback_def now_def Let_def)

lemma callback_idle:
  assumes "trigger_words a \<noteq> []" and "segs \<noteq> []"
    and "\<not> in_cooldown ts (clock w (reads w))" and "\<not> waiting ts"
  shows "trigger_word_callback a (ts, lgo, w) txt (Some segs) =
     (case scan_segments (trigger_words a) (last_processed_segment_count ts)
             (drop (last_processed_segment_count ts) segs) of
        None \<Rightarrow> ((ts, lgo, w\<lparr>reads := Suc (reads w)\<rparr>), None)
      | Some (actual_index, tw) \<Rightarrow>
          start_waiting (clock w (reads w)) (length segs) actual_index tw
            (ts, lgo, w\<lparr>reads := Suc (reads w)\<rparr>))"
  using assms by (simp add: trigger_word_callback_def now_def Let_def)

lemma start_waiting_ts:
  "fst (fst (start_waiting t n i tw (ts, lgo, w))) =
     ts\<lparr>waiting := True, trigger_word := Some tw, trigger_segment_index := int i,
        start_time := Some t, last_change_time := Some t, waiting_segment_count := n\<rparr>"
proof (cases lgo)
  case None
  then show ?thesis by (simp add: start_waiting_def Let_def)
next
  case (Some lg)
  obtain lg' w' r where "log_trigger_event (lg, w) ''trigger_detected'' (Some tw) None = ((lg', w'), r)"
    by (metis surj_pair)
  then show ?thesis
    using Some by (cases r) (simp_all add: start_waiting_def Let_def)
qed

lemma ts_inv_init: "ts_inv (init_trigger_state d)"
  by (simp add: ts_inv_def init_trigger_state_def)

lemma ts_inv_callback:
  assumes "ts_inv ts"
  shows "ts_inv (fst (fst (trigger_word_callback a (ts, lgo, w) txt sa)))"
proof (cases "trigger_words a = [] \<or> sa = None \<or> sa = Some []")
  case True
  then show ?thesis using assms by (simp add: callback_ignored)
next
  case False
  then obtain segs where sa: "sa = Some segs" and ne: "segs \<noteq> []" and tw: "trigger_words a \<noteq> []"
    by auto
  show ?thesis
  proof (cases "in_cooldown ts (clock w (reads w))")
    case True
    then show ?thesis using assms by (simp add: sa callback_cooldown [OF tw ne])
  next
    case nc: False
    show ?thesis
    proof (cases "waiting ts")
      case True
      let ?u = "update_waiting ts (clock w (reads w)) (length segs)"
      have u: "ts_inv (fst ?u)" "waiting (fst ?u)"
        using assms True by (auto simp: ts_inv_def update_waiting_fields)
      show ?thesis
      proof (cases "snd ?u")
        case fin: True
        have "0 \<le> trigger_segment_index (fst ?u) \<longrightarrow> trigger_word (fst ?u) \<noteq> None"
          using u by (simp add: ts_inv_def)
        from finalize_state_reset [OF this, of a "clock w (reads w)" segs lgo "w\<lparr>reads := Suc (reads w)\<rparr>"]
        obtain ts0 where "fst (fst (finalize a (clock w (reads w)) segs (fst ?u, lgo, w\<lparr>reads := Suc (reads w)\<rparr>))) =
            reset_state ts0 (length segs)" and "collection_timeout ts0 = collection_timeout (fst ?u)"
          by blast
        then show ?thesis
          using fin u by (simp add: sa callback_waiting [OF tw ne nc True] ts_inv_def reset_state_fields)
      next
        case False
        then show ?thesis
          using u by (simp add: sa callback_waiting [OF tw ne nc True])
      qed
    next
      case idle: False
      show ?thesis
      proof (cases "scan_segments (trigger_words a) (last_processed_segment_count ts)
             (drop (last_processed_segment_count ts) segs)")
        case None
        then show ?thesis using assms by (simp add: sa callback_idle [OF tw ne nc idle])
      next
        case (Some m)
        then show ?thesis
          using assms
          by (cases m) (simp add: sa callback_idle [OF tw ne nc idle] start_waiting_ts ts_inv_def)
      qed
    qed
  qed
qed

lemma idle_keeps_no_deadline:
  assumes "ts_inv ts" and "\<not> waiting ts"
  shows "max_collection_time (fst (fst (trigger_word_callback a (ts, lgo, w) txt sa))) = None"
proof (cases "trigger_words a = [] \<or> sa = None \<or> sa = Some []")
  case True
  then show ?thesis using assms by (simp add: callback_ignored ts_inv_def)
next
  case False
  then obtain segs where sa: "sa = Some segs" and ne: "segs \<noteq> []" and tw: "trigger_words a \<noteq> []"
    by auto
  show ?thesis
  proof (cases "in_cooldown ts (clock w (reads w))")
    case True
    then show ?thesis using assms by (simp add: sa callback_cooldown [OF tw ne] ts_inv_def)
  next
    case nc: False
    show ?thesis
    proof (cases "scan_segments (trigger_words a) (last_processed_segment_count ts)
             (drop (last_processed_segment_count ts) segs)")
      case None
      then show ?thesis
        using assms by (simp add: sa callback_idle [OF tw ne nc assms(2)] ts_inv_def)
    next
      case (Some m)
      then show ?thesis
        using assms
        by (cases m) (simp add: sa callback_idle [OF tw ne nc assms(2)] start_waiting_ts ts_inv_def)
    qed
  qed
qed

text \<open>
  Claim C1. A callback that reaches the waiting branch (trigger words are configured, the
  segment list is not empty, the detector is waiting and not in cooldown) finalizes, and
  so leaves the detector idle, if and only if the collection deadline has been reached,
  or the time since the last change is at least the stability delay and the time since the
  trigger is at least 2 seconds. The deadline is the one stored, or, when none is stored,
  the current time plus 5 seconds; a callback that does not finalize stores it, and an idle
  detector has none, so it is the time of the first waiting callback plus 5 seconds. The
  last change time becomes the current time exactly when the segment count exceeds the
  count recorded at the previous change.
\<close>

theorem waiting_finalizes_iff:
  assumes "ts_inv ts" and "waiting ts" and "trigger_words a \<noteq> []" and "segs \<noteq> []"
    and "\<not> in_cooldown ts (clock w (reads w))"
    and "start_time ts = Some t0" and "last_change_time ts = Some lc"
  shows "(let now = clock w (reads w);
              deadline = (case max_collection_time ts of None \<Rightarrow> now + 5000000 | Some d \<Rightarrow> d);
              changed = (waiting_segment_count ts < length segs);
              last_change = (if changed then now else lc);
              finalizes = (deadline \<le> now \<or>
                           (stability_delay ts \<le> total_seconds (now - last_change) \<and>
                            2 \<le> total_seconds (now - t0)));
              ts' = fst (fst (trigger_word_callback a (ts, lgo, w) txt (Some segs)))
          in (finalizes \<longleftrightarrow> \<not> waiting ts') \<and>
             (finalizes \<longrightarrow>
                last_processed_segment_count ts' = length segs \<and> max_collection_time ts' = None) \<and>
             (\<not> finalizes \<longrightarrow>
                max_collection_time ts' = Some deadline \<and>
                last_change_time ts' = Some last_change \<and>
                waiting_segment_count ts' = (if changed then length segs else waiting_segment_count ts) \<and>
                start_time ts' = Some t0)) \<and>
         (\<forall>ts0 lgo0 w0 txt0 sa.
            ts_inv ts0 \<and> \<not> waiting ts0 \<longrightarrow>
              max_collection_time (fst (fst (trigger_word_callback a (ts0, lgo0, w0) txt0 sa))) = None \<and>
              ts_inv (fst (fst (trigger_word_callback a (ts0, lgo0, w0) txt0 sa))))"
proof
  let ?now = "clock w (reads w)"
  let ?u = "update_waiting ts ?now (length segs)"
  have ct: "collection_timeout ts = 5" using assms(1) by (simp add: ts_inv_def)
  have dec: "snd ?u =
     ((case max_collection_time ts of None \<Rightarrow> ?now + 5000000 | Some d \<Rightarrow> d) \<le> ?now \<or>
      (stability_delay ts \<le> total_seconds (?now - (if waiting_segment_count ts < length segs then ?now else lc)) \<and>
       2 \<le> total_seconds (?now - t0)))"
    by (cases "max_collection_time ts")
      (simp_all add: update_waiting_decides [OF assms(6,7)] ct timedelta_seconds_5)
  have cb: "trigger_word_callback a (ts, lgo, w) txt (Some segs) =
     (if snd ?u then finalize a ?now segs (fst ?u, lgo, w\<lparr>reads := Suc (reads w)\<rparr>)
      else ((fst ?u, lgo, w\<lparr>reads := Suc (reads w)\<rparr>), None))"
    by (rule callback_waiting [OF assms(3,4,5,2)])
  show "let now = clock w (reads w);
              deadline = (case max_collection_time ts of None \<Rightarrow> now + 5000000 | Some d \<Rightarrow> d);
              changed = (waiting_segment_count ts < length segs);
              last_change = (if changed then now else lc);
              finalizes = (deadline \<le> now \<or>
                           (stability_delay ts \<le> total_seconds (now - last_change) \<and>
                            2 \<le> total_seconds (now - t0)));
              ts' = fst (fst (trigger_word_callback a (ts, lgo, w) txt (Some segs)))
          in (finalizes \<longleftrightarrow> \<not> waiting ts') \<and>
             (finalizes \<longrightarrow>
                last_processed_segment_count ts' = length segs \<and> max_collection_time ts' = None) \<and>
             (\<not> finalizes \<longrightarrow>
                max_collection_time ts' = Some deadline \<and>
                last_change_time ts' = Some last_change \<and>
                waiting_segment_count ts' = (if changed then length segs else waiting_segment_count ts) \<and>
                start_time ts' = Some t0)"
  proof (cases "snd ?u")
    case True
    have "0 \<le> trigger_segment_index (fst ?u) \<longrightarrow> trigger_word (fst ?u) \<noteq> None"
      using assms(1,2) by (simp add: ts_inv_def update_waiting_fields)
    from finalize_state_reset [OF this, of a ?now segs lgo "w\<lparr>reads := Suc (reads w)\<rparr>"]
    obtain ts0 where "fst (fst (finalize a ?now segs (fst ?u, lgo, w\<lparr>reads := Suc (reads w)\<rparr>))) =
        reset_state ts0 (length segs)"
      by blast
    then have r: "fst (fst (trigger_word_callback a (ts, lgo, w) txt (Some segs))) = reset_state ts0 (length segs)"
      using True by (simp add: cb)
    show ?thesis
      unfolding Let_def r dec [symmetric] using True by (simp add: reset_state_fields)
  next
    case False
    then have r: "fst (fst (trigger_word_callback a (ts, lgo, w) txt (Some segs))) = fst ?u"
      by (simp add: cb)
    show ?thesis
      unfolding Let_def r dec [symmetric] using False assms(2,6,7)
      by (simp add: update_waiting_fields ct timedelta_seconds_5 cong: option.case_cong)
  qed
next
  show "\<forall>ts0 lgo0 w0 txt0 sa.
            ts_inv ts0 \<and> \<not> waiting ts0 \<longrightarrow>
              max_collection_time (fst (fst (trigger_word_callback a (ts0, lgo0, w0) txt0 sa))) = None \<and>
              ts_inv (fst (fst (trigger_word_callback a (ts0, lgo0, w0) txt0 sa)))"
    by (simp add: idle_keeps_no_deadline ts_inv_callback)
qed

section \<open>Strings\<close>

lemma py_in_sublist: "py_in sub s = sublist sub s"
  by (induction s) (simp_all add: sublist_Cons_right)









section \<open>The statement after the trigger word\<close>


section \<open>Scanning for a trigger word\<close>

lemma find_trigger_word_None:
  "find_trigger_word tws t = None \<longleftrightarrow> (\<forall>tw\<in>set tws. \<not> sublist (py_lower tw) (py_lower t))"
  by (induction tws) (simp_all add: py_in_sublist)

lemma find_trigger_word_Some:
  "k < length tws \<Longrightarrow> sublist (py_lower (tws ! k)) (py_lower t) \<Longrightarrow>
   (\<forall>k'<k. \<not> sublist (py_lower (tws ! k')) (py_lower t)) \<Longrightarrow>
   find_trigger_word tws t = Some (tws ! k)"
proof (induction tws arbitrary: k)
  case Nil
  then show ?case by simp
next
  case (Cons tw tws)
  show ?case
  proof (cases k)
    case 0
    with Cons.prems show ?thesis by (simp add: py_in_sublist)
  next
    case (Suc k0)
    have first: "\<not> sublist (py_lower tw) (py_lower t)"
      using Cons.prems(3) Suc by (metis nth_Cons_0 zero_less_Suc)
    have "find_trigger_word tws t = Some (tws ! k0)"
    proof (rule Cons.IH)
      show "k0 < length tws" using Cons.prems(1) Suc by simp
      show "sublist (py_lower (tws ! k0)) (py_lower t)" using Cons.prems(2) Suc by simp
      show "\<forall>k'<k0. \<not> sublist (py_lower (tws ! k')) (py_lower t)"
      proof (intro allI impI)
        fix k' assume "k' < k0"
        then have "Suc k' < k" using Suc by simp
        with Cons.prems(3) have "\<not> sublist (py_lower ((tw # tws) ! Suc k')) (py_lower t)" by blast
        then show "\<not> sublist (py_lower (tws ! k')) (py_lower t)" by simp
      qed
    qed
    with first Suc show ?thesis by (simp add: py_in_sublist)
  qed
qed

lemma scan_segments_None:
  "(\<forall>j<length xs. \<forall>tw\<in>set tws. \<not> trigger_match tw (xs ! j)) \<Longrightarrow>
   scan_segments tws b xs = None"
proof (induction xs arbitrary: b)
  case Nil
  then show ?case by simp
next
  case (Cons x xs)
  have head: "\<forall>tw\<in>set tws. \<not> trigger_match tw x"
    using Cons.prems by (metis length_greater_0_conv list.distinct(1) nth_Cons_0)
  have tail: "\<forall>j<length xs. \<forall>tw\<in>set tws. \<not> trigger_match tw (xs ! j)"
  proof (intro allI impI)
    fix j assume "j < length xs"
    then have "Suc j < length (x # xs)" by simp
    with Cons.prems have "\<forall>tw\<in>set tws. \<not> trigger_match tw ((x # xs) ! Suc j)" by blast
    then show "\<forall>tw\<in>set tws. \<not> trigger_match tw (xs ! j)" by simp
  qed
  have rest: "scan_segments tws (Suc b) xs = None"
    by (rule Cons.IH [OF tail])
  show ?case
  proof (cases "py_strip (get_or (seg_text x) '''') = []")
    case True
    then show ?thesis using rest by simp
  next
    case False
    with head have "find_trigger_word tws (py_strip (get_or (seg_text x) '''')) = None"
      by (simp add: find_trigger_word_None trigger_match_def)
    with False rest show ?thesis by simp
  qed
qed

lemma scan_segments_Some:
  "j < length xs \<Longrightarrow> k < length tws \<Longrightarrow> trigger_match (tws ! k) (xs ! j) \<Longrightarrow>
   (\<forall>j'<j. \<forall>tw\<in>set tws. \<not> trigger_match tw (xs ! j')) \<Longrightarrow>
   (\<forall>k'<k. \<not> trigger_match (tws ! k') (xs ! j)) \<Longrightarrow>
   scan_segments tws b xs = Some (b + j, tws ! k)"
proof (induction xs arbitrary: b j)
  case Nil
  then show ?case by simp
next
  case (Cons x xs)
  show ?case
  proof (cases j)
    case 0
    have ne: "py_strip (get_or (seg_text x) '''') \<noteq> []"
      and m: "sublist (py_lower (tws ! k)) (py_lower (py_strip (get_or (seg_text x) '''')))"
      using Cons.prems(3) 0 by (simp_all add: trigger_match_def)
    have "\<forall>k'<k. \<not> sublist (py_lower (tws ! k')) (py_lower (py_strip (get_or (seg_text x) '''')))"
      using Cons.prems(5) 0 ne by (simp add: trigger_match_def)
    with Cons.prems(2) m
    have "find_trigger_word tws (py_strip (get_or (seg_text x) '''')) = Some (tws ! k)"
      by (rule find_trigger_word_Some)
    with ne 0 show ?thesis by simp
  next
    case (Suc j0)
    have head: "\<forall>tw\<in>set tws. \<not> trigger_match tw x"
      using Cons.prems(4) Suc by (metis nth_Cons_0 zero_less_Suc)
    have rest: "scan_segments tws (Suc b) xs = Some (Suc b + j0, tws ! k)"
    proof (rule Cons.IH)
      show "j0 < length xs" using Cons.prems(1) Suc by simp
      show "k < length tws" by (rule Cons.prems(2))
      show "trigger_match (tws ! k) (xs ! j0)" using Cons.prems(3) Suc by simp
      show "\<forall>j'<j0. \<forall>tw\<in>set tws. \<not> trigger_match tw (xs ! j')"
      proof (intro allI impI)
        fix j' assume "j' < j0"
        then have "Suc j' < j" using Suc by simp
        with Cons.prems(4) have "\<forall>tw\<in>set tws. \<not> trigger_match tw ((x # xs) ! Suc j')" by blast
        then show "\<forall>tw\<in>set tws. \<not> trigger_match tw (xs ! j')" by simp
      qed
      show "\<forall>k'<k. \<not> trigger_match (tws ! k') (xs ! j0)" using Cons.prems(5) Suc by simp
    qed
    show ?thesis
    proof (cases "py_strip (get_or (seg_text x) '''') = []")
      case True
      then show ?thesis using rest Suc by simp
    next
      case False
      with head have "find_trigger_word tws (py_strip (get_or (seg_text x) '''')) = None"
        by (simp add: find_trigger_word_None trigger_match_def)
      with False rest Suc show ?thesis by simp
    qed
  qed
qed

lemma start_waiting_detected:
  "trigger_words_detected (stats (fst (fst (log_trigger_event (lg, w) ''trigger_detected'' tw st)))) =
     trigger_words_detected (stats lg) + 1"
  by (simp add: log_trigger_event_def Let_def now_def split: option.splits)

lemma start_waiting_logger:
  "fst (snd (fst (start_waiting t n i tw (ts, lgo, w)))) =
     (case lgo of
        None \<Rightarrow> None
      | Some lg \<Rightarrow> Some (fst (fst (log_trigger_event (lg, w) ''trigger_detected'' (Some tw) None))))"
proof (cases lgo)
  case None
  then show ?thesis by (simp add: start_waiting_def Let_def)
next
  case (Some lg)
  obtain lg' w' r where "log_trigger_event (lg, w) ''trigger_detected'' (Some tw) None = ((lg', w'), r)"
    by (metis surj_pair)
  then show ?thesis
    using Some by (cases r) (simp_all add: start_waiting_def Let_def)
qed

text \<open>
  Claim C2. A callback that reaches the idle branch (trigger words are configured, the
  segment list is not empty, the detector is neither waiting nor in cooldown) examines
  only the segments at an index at or above the watermark: its outcome is the same for any
  other list of the same length with the same segments from the watermark on. It takes
  the first such segment, in list order, whose trimmed text is not empty and contains a
  trigger word, letter case apart, and for this segment the first such trigger word in
  configured order: the detector then waits, with this word, the index of the segment in
  the whole list, the current time as start time and as last change time, and the length of
  the list as segment count, and one trigger detection is counted. Without such a segment
  the detector is unchanged.
\<close>

theorem idle_scan_first_match:
  assumes "trigger_words a \<noteq> []" and "segs \<noteq> []"
    and "\<not> in_cooldown ts (clock w (reads w))" and "\<not> waiting ts"
  shows "(\<forall>segs' txt'.
            length segs' = length segs \<and>
            drop (last_processed_segment_count ts) segs' = drop (last_processed_segment_count ts) segs \<longrightarrow>
              trigger_word_callback a (ts, lgo, w) txt' (Some segs') =
              trigger_word_callback a (ts, lgo, w) txt (Some segs)) \<and>
         ((\<forall>i tw. last_processed_segment_count ts \<le> i \<and> i < length segs \<and> tw \<in> set (trigger_words a) \<longrightarrow>
                   \<not> trigger_match tw (segs ! i)) \<longrightarrow>
            trigger_word_callback a (ts, lgo, w) txt (Some segs) =
              ((ts, lgo, w\<lparr>reads := Suc (reads w)\<rparr>), None)) \<and>
         (\<forall>i k. last_processed_segment_count ts \<le> i \<and> i < length segs \<and>
                 k < length (trigger_words a) \<and>
                 trigger_match (trigger_words a ! k) (segs ! i) \<and>
                 (\<forall>j tw. last_processed_segment_count ts \<le> j \<and> j < i \<and> tw \<in> set (trigger_words a) \<longrightarrow>
                          \<not> trigger_match tw (segs ! j)) \<and>
                 (\<forall>k'<k. \<not> trigger_match (trigger_words a ! k') (segs ! i)) \<longrightarrow>
            fst (fst (trigger_word_callback a (ts, lgo, w) txt (Some segs))) =
              ts\<lparr>waiting := True, trigger_word := Some (trigger_words a ! k),
                 trigger_segment_index := int i,
                 start_time := Some (clock w (reads w)),
                 last_change_time := Some (clock w (reads w)),
                 waiting_segment_count := length segs\<rparr> \<and>
            (case (lgo, fst (snd (fst (trigger_word_callback a (ts, lgo, w) txt (Some segs))))) of
               (Some lg, Some lg') \<Rightarrow>
                 trigger_words_detected (stats lg') = trigger_words_detected (stats lg) + 1
             | (Some lg, None) \<Rightarrow> False
             | (None, r) \<Rightarrow> r = None))"
proof (intro conjI allI impI)
  fix segs' txt'
  assume h: "length segs' = length segs \<and>
      drop (last_processed_segment_count ts) segs' = drop (last_processed_segment_count ts) segs"
  then have ne: "segs' \<noteq> []" using assms(2) by auto
  have l: "length segs' = length segs"
    and d: "drop (last_processed_segment_count ts) segs' = drop (last_processed_segment_count ts) segs"
    using h by simp_all
  show "trigger_word_callback a (ts, lgo, w) txt' (Some segs') =
      trigger_word_callback a (ts, lgo, w) txt (Some segs)"
    unfolding callback_idle [OF assms(1) ne assms(3,4)] callback_idle [OF assms] l d
    by (rule refl)
next
  let ?n = "last_processed_segment_count ts"
  assume none: "\<forall>i tw. ?n \<le> i \<and> i < length segs \<and> tw \<in> set (trigger_words a) \<longrightarrow>
      \<not> trigger_match tw (segs ! i)"
  have "\<forall>j<length (drop ?n segs). \<forall>tw\<in>set (trigger_words a). \<not> trigger_match tw (drop ?n segs ! j)"
    using none by simp
  then have "scan_segments (trigger_words a) ?n (drop ?n segs) = None"
    by (rule scan_segments_None)
  then show "trigger_word_callback a (ts, lgo, w) txt (Some segs) =
      ((ts, lgo, w\<lparr>reads := Suc (reads w)\<rparr>), None)"
    by (simp add: callback_idle [OF assms])
next
  let ?n = "last_processed_segment_count ts"
  fix i k
  assume h: "?n \<le> i \<and> i < length segs \<and> k < length (trigger_words a) \<and>
      trigger_match (trigger_words a ! k) (segs ! i) \<and>
      (\<forall>j tw. ?n \<le> j \<and> j < i \<and> tw \<in> set (trigger_words a) \<longrightarrow> \<not> trigger_match tw (segs ! j)) \<and>
      (\<forall>k'<k. \<not> trigger_match (trigger_words a ! k') (segs ! i))"
  have i: "?n + (i - ?n) = i" using h by simp
  have "scan_segments (trigger_words a) ?n (drop ?n segs) =
      Some (?n + (i - ?n), trigger_words a ! k)"
  proof (rule scan_segments_Some)
    show "i - ?n < length (drop ?n segs)" using h by auto
    show "k < length (trigger_words a)" using h by simp
    show "trigger_match (trigger_words a ! k) (drop ?n segs ! (i - ?n))" using h by simp
    show "\<forall>j'<i - ?n. \<forall>tw\<in>set (trigger_words a). \<not> trigger_match tw (drop ?n segs ! j')"
      using h by simp
    show "\<forall>k'<k. \<not> trigger_match (trigger_words a ! k') (drop ?n segs ! (i - ?n))"
      using h by simp
  qed
  then have cb: "trigger_word_callback a (ts, lgo, w) txt (Some segs) =
      start_waiting (clock w (reads w)) (length segs) i (trigger_words a ! k)
        (ts, lgo, w\<lparr>reads := Suc (reads w)\<rparr>)"
    by (simp add: callback_idle [OF assms] i)
  show "fst (fst (trigger_word_callback a (ts, lgo, w) txt (Some segs))) =
      ts\<lparr>waiting := True, trigger_word := Some (trigger_words a ! k),
         trigger_segment_index := int i,
         start_time := Some (clock w (reads w)),
         last_change_time := Some (clock w (reads w)),
         waiting_segment_count := length segs\<rparr>"
    by (simp add: cb start_waiting_ts)
  show "case (lgo, fst (snd (fst (trigger_word_callback a (ts, lgo, w) txt (Some segs))))) of
               (Some lg, Some lg') \<Rightarrow>
                 trigger_words_detected (stats lg') = trigger_words_detected (stats lg) + 1
             | (Some lg, None) \<Rightarrow> False
             | (None, r) \<Rightarrow> r = None"
    unfolding cb start_waiting_logger
    by (cases lgo) (simp_all add: start_waiting_detected)
qed

section \<open>Sample runs\<close>

lemma sample_waiting_inv: "ts_inv sample_waiting"
  by (simp add: ts_inv_def sample_waiting_def init_trigger_state_def)

theorem waiting_finalizes_iff_witness:
  "ts_inv sample_waiting \<and> waiting sample_waiting \<and> trigger_words sample_args \<noteq> [] \<and>
   [sample_segment ''hello world''] \<noteq> [] \<and>
   \<not> in_cooldown sample_waiting (clock sample_world_3 (reads sample_world_3)) \<and>
   start_time sample_waiting = Some 0 \<and> last_change_time sample_waiting = Some 0 \<and>
   \<not> waiting (fst (fst (trigger_word_callback sample_args (sample_waiting, None, sample_world_3) ''''
        (Some [sample_segment ''hello world'']))))"
proof -
  have h: "waiting sample_waiting" "trigger_words sample_args \<noteq> []"
    "[sample_segment ''hello world''] \<noteq> []"
    "\<not> in_cooldown sample_waiting (clock sample_world_3 (reads sample_world_3))"
    "start_time sample_waiting = Some 0" "last_change_time sample_waiting = Some 0"
    by (simp_all add: sample_waiting_def init_trigger_state_def sample_args_def in_cooldown_def)
  have v: "clock sample_world_3 (reads sample_world_3) = 3000000"
    "max_collection_time sample_waiting = None" "stability_delay sample_waiting = 3/2"
    "waiting_segment_count sample_waiting = 1"
    by (simp_all add: sample_world_3_def sample_world_def sample_waiting_def init_trigger_state_def)
  show ?thesis
    using sample_waiting_inv h
      waiting_finalizes_iff [OF sample_waiting_inv h, of None "''''"]
    by (simp add: Let_def v total_seconds_def)
qed

theorem idle_scan_first_match_witness:
  "trigger_words sample_args \<noteq> [] \<and> [sample_segment ''say Hello''] \<noteq> [] \<and>
   \<not> in_cooldown (init_trigger_state (3/2)) (clock sample_world (reads sample_world)) \<and>
   \<not> waiting (init_trigger_state (3/2)) \<and>
   trigger_match ''hello'' (sample_segment ''say Hello'') \<and>
   fst (fst (trigger_word_callback sample_args (init_trigger_state (3/2), None, sample_world) ''''
      (Some [sample_segment ''say Hello'']))) =
     (init_trigger_state (3/2))
       \<lparr>waiting := True, trigger_word := Some ''hello'', trigger_segment_index := 0,
        start_time := Some 0, last_change_time := Some 0, waiting_segment_count := 1\<rparr>"
proof -
  have h: "trigger_words sample_args \<noteq> []" "[sample_segment ''say Hello''] \<noteq> []"
    "\<not> in_cooldown (init_trigger_state (3/2)) (clock sample_world (reads sample_world))"
    "\<not> waiting (init_trigger_state (3/2))"
    by (simp_all add: init_trigger_state_def sample_args_def in_cooldown_def)
  have s: "py_strip (get_or (seg_text (sample_segment ''say Hello'')) '''') = ''say Hello''"
    by (simp add: sample_segment_def py_strip_def isspace_def)
  have "py_in (py_lower ''hello'') (py_lower ''say Hello'')"
    by (simp add: py_lower_def lower_char_def isupper_def)
  then have m: "trigger_match ''hello'' (sample_segment ''say Hello'')"
    unfolding trigger_match_def s py_in_sublist by simp
  have v: "clock sample_world (reads sample_world) = 0"
    "last_processed_segment_count (init_trigger_state (3/2)) = 0"
    "trigger_words sample_args = [''hello'']"
    by (simp_all add: sample_world_def init_trigger_state_def sample_args_def)
  show ?thesis
    using h m
      idle_scan_first_match [OF h, of None "''''", THEN conjunct2, THEN conjunct2, rule_format, of 0 0]
    by (simp add: v)
qed




theorem finalize_resets_witness:
  "ts_inv sample_waiting \<and> waiting sample_waiting \<and>
   snd (finalize sample_args 3000000 [sample_segment ''hello world'']
      (sample_waiting, None, sample_world_3)) = None \<and>
   \<not> waiting (fst (fst (finalize sample_args 3000000 [sample_segment ''hello world'']
      (sample_waiting, None, sample_world_3)))) \<and>
   last_processed_segment_count (fst (fst (finalize sample_args 3000000 [sample_segment ''hello world'']
      (sample_waiting, None, sample_world_3)))) = 1"
proof -
  have w: "waiting sample_waiting" by (simp add: sample_waiting_def)
  show ?thesis
    using sample_waiting_inv w
      finalize_resets [OF sample_waiting_inv w, of sample_args 3000000 "[sample_segment ''hello world'']"
        None sample_world_3]
    by (simp add: Let_def)
qed

section \<open>The combined callback\<close>

subsection \<open>The \<^verbatim>\<open>except\<close> clause\<close>

lemma handle_error_frame:
  "fst (fst (handle_error e (ts, lgo, w))) = ts"
  "fst (snd (fst (handle_error e (ts, lgo, w)))) = lgo"
  by (auto simp: handle_error_def split: option.splits)

lemma handle_error_raises:
  "enable_text lg \<Longrightarrow> text_log_fault w = Some e' \<Longrightarrow>
   handle_error e (ts, Some lg, w) = ((ts, Some lg, w), Some e')"
  by (simp add: handle_error_def)

lemma handle_error_reports:
  assumes "can_report lgo w"
  shows "snd (handle_error e (ts, lgo, w)) = None"
    and "text_log (snd (snd (fst (handle_error e (ts, lgo, w))))) =
      text_log w @ (case lgo of
                      None \<Rightarrow> []
                    | Some lg \<Rightarrow> if enable_text lg then [TextError e (verbose lg)] else [])"
    and "console (snd (snd (fst (handle_error e (ts, lgo, w))))) =
      console w @ (if sublist ''critical'' (py_lower (exn_str e)) then [MsgCritical e] else [])"
  using assms
  by (auto simp: handle_error_def can_report_def print_def py_in_sublist split: option.splits)

text \<open>What the combined callback does with an exception of its \<^verbatim>\<open>try\<close> body: when the
  report can be written, nothing reaches the caller, the error is appended to the text log
  if text logging is on, and it is printed exactly when its message contains \<open>critical\<close>,
  letter case apart. When text logging is on and the text log cannot be opened, the
  exception of \<^verbatim>\<open>open\<close> reaches the caller.\<close>

lemma combined_callback_caught:
  assumes "dispatch pf a p txt sa vad = ((ts', lgo', w'), Some e)" and "can_report lgo' w'"
  shows "snd (combined_callback pf a p txt sa vad) = None"
    and "text_log (snd (snd (fst (combined_callback pf a p txt sa vad)))) =
      text_log w' @ (case lgo' of
                       None \<Rightarrow> []
                     | Some lg \<Rightarrow> if enable_text lg then [TextError e (verbose lg)] else [])"
    and "console (snd (snd (fst (combined_callback pf a p txt sa vad)))) =
      console w' @ (if sublist ''critical'' (py_lower (exn_str e)) then [MsgCritical e] else [])"
  using assms(1) handle_error_reports [OF assms(2), of e ts']
  by (simp_all add: combined_callback_def)

lemma combined_callback_escapes:
  assumes "dispatch pf a p txt sa vad = ((ts', Some lg, w'), Some e)"
    and "enable_text lg" and "text_log_fault w' = Some e'"
  shows "combined_callback pf a p txt sa vad = ((ts', Some lg, w'), Some e')"
  using assms by (simp add: combined_callback_def handle_error_raises)

text \<open>
  Claim C8, at an input where it fails. Text logging is on and the text log cannot be
  opened. A completed segment arrives: \<^verbatim>\<open>log_segment\<close> raises when it opens the text log, the
  \<^verbatim>\<open>except\<close> clause of the combined callback opens the same file to report the error, and the
  exception of this second \<^verbatim>\<open>open\<close> reaches the caller. Nothing is appended to the text
  log and nothing is printed.
\<close>

theorem handler_failure_reaches_caller:
  "snd (combined_callback no_float sample_args
          (init_trigger_state (3/2), Some (init_logger True True False 0), sample_world_no_text_log)
          '''' (Some [sample_segment ''hello'']) None) =
     Some (Exn ''PermissionError'' ''Permission denied'') \<and>
   text_log (snd (snd (fst (combined_callback no_float sample_args
          (init_trigger_state (3/2), Some (init_logger True True False 0), sample_world_no_text_log)
          '''' (Some [sample_segment ''hello'']) None)))) = [] \<and>
   console (snd (snd (fst (combined_callback no_float sample_args
          (init_trigger_state (3/2), Some (init_logger True True False 0), sample_world_no_text_log)
          '''' (Some [sample_segment ''hello'']) None)))) = []"
proof -
  let ?lg = "init_logger True True False 0"
  let ?w = "sample_world_no_text_log"
  let ?e = "Exn ''PermissionError'' ''Permission denied''"
  obtain lg3 w3 i where ns: "new_segment no_float (?lg, ?w) (sample_segment ''hello'') ''transcription'' =
      ((lg3, w3), i)"
    by (metis surj_pair)
  have f: "enable_json lg3" "enable_text lg3" "json_log_fault w3 = None" "text_log_fault w3 = Some ?e"
    "text_log w3 = []" "console w3 = []"
    using ns
    by (auto simp: new_segment_def Let_def now_def case_prod_beta init_logger_def
        sample_world_no_text_log_def sample_world_def)
  have wl: "write_logs i (lg3, w3) =
      ((lg3\<lparr>json_segments := json_segments lg3 @ [SegmentInfo i]\<rparr>,
        w3\<lparr>json_log := Some \<lparr>doc_stats = stats lg3,
                               doc_segments = json_segments lg3 @ [SegmentInfo i]\<rparr>\<rparr>), Raise ?e)"
    using f by (simp add: write_logs_def write_json_def write_text_def Let_def)
  have ls: "log_segment no_float (?lg, ?w) (sample_segment ''hello'') ''transcription'' =
      ((lg3\<lparr>json_segments := json_segments lg3 @ [SegmentInfo i]\<rparr>,
        w3\<lparr>json_log := Some \<lparr>doc_stats = stats lg3,
                               doc_segments = json_segments lg3 @ [SegmentInfo i]\<rparr>\<rparr>), Raise ?e)"
  proof -
    have "segment_key (sample_segment ''hello'') \<notin> logged_segments (fst (?lg, ?w))"
      by (simp add: init_logger_def)
    then show ?thesis
      unfolding log_segment_def ns by (simp add: wl)
  qed
  have d: "dispatch no_float sample_args (init_trigger_state (3/2), Some ?lg, ?w) ''''
      (Some [sample_segment ''hello'']) None =
      ((init_trigger_state (3/2), Some (lg3\<lparr>json_segments := json_segments lg3 @ [SegmentInfo i]\<rparr>),
        w3\<lparr>json_log := Some \<lparr>doc_stats = stats lg3,
                               doc_segments = json_segments lg3 @ [SegmentInfo i]\<rparr>\<rparr>), Some ?e)"
  proof -
    have "is_completed (sample_segment ''hello'')"
      by (simp add: is_completed_def sample_segment_def)
    then show ?thesis
      by (simp add: dispatch_def log_segments_def ls)
  qed
  have en: "enable_text (lg3\<lparr>json_segments := json_segments lg3 @ [SegmentInfo i]\<rparr>)"
    using f by simp
  have tf: "text_log_fault (w3\<lparr>json_log := Some \<lparr>doc_stats = stats lg3,
                               doc_segments = json_segments lg3 @ [SegmentInfo i]\<rparr>\<rparr>) = Some ?e"
    using f by simp
  have "combined_callback no_float sample_args (init_trigger_state (3/2), Some ?lg, ?w) ''''
      (Some [sample_segment ''hello'']) None =
      ((init_trigger_state (3/2), Some (lg3\<lparr>json_segments := json_segments lg3 @ [SegmentInfo i]\<rparr>),
        w3\<lparr>json_log := Some \<lparr>doc_stats = stats lg3,
                               doc_segments = json_segments lg3 @ [SegmentInfo i]\<rparr>\<rparr>), Some ?e)"
    by (rule combined_callback_escapes [OF d en tf])
  then show ?thesis
    using f by simp
qed

subsection \<open>A VAD sub-event\<close>

lemma log_vad_event_result:
  "stats (fst (fst (log_vad_event (lg, w) ev d))) =
     (if ev = Some ''vad_filter''
      then (stats lg)\<lparr>vad_total_events := vad_total_events (stats lg) + 1,
                      vad_silence_filters := vad_silence_filters (stats lg) + 1\<rparr>
      else (stats lg)\<lparr>vad_total_events := vad_total_events (stats lg) + 1\<rparr>)"
  "json_segments (fst (fst (log_vad_event (lg, w) ev d))) =
     json_segments lg @ (if enable_json lg then [EventInfo (clock w (reads w)) ev d] else [])"
  "logged_segments (fst (fst (log_vad_event (lg, w) ev d))) = logged_segments lg"
  "last_segment_time (fst (fst (log_vad_event (lg, w) ev d))) = last_segment_time lg"
  "enable_json (fst (fst (log_vad_event (lg, w) ev d))) = enable_json lg"
  "enable_text (fst (fst (log_vad_event (lg, w) ev d))) = enable_text lg"
  "verbose (fst (fst (log_vad_event (lg, w) ev d))) = verbose lg"
  by (simp_all add: log_vad_event_def Let_def now_def split: option.splits)

lemma dispatch_vad:
  "dispatch pf a (ts, Some lg, w) txt sa (Some ev) =
     ((ts, Some (fst (fst (log_vad_event (lg, w) (vad_type ev) (get_or (vad_details ev) [])))),
       snd (fst (log_vad_event (lg, w) (vad_type ev) (get_or (vad_details ev) [])))),
      snd (log_vad_event (lg, w) (vad_type ev) (get_or (vad_details ev) [])))"
  by (simp add: dispatch_def case_prod_beta)

lemma combined_callback_vad:
  "combined_callback pf a (ts, Some lg, w) txt sa (Some ev) =
     (case snd (log_vad_event (lg, w) (vad_type ev) (get_or (vad_details ev) [])) of
        None \<Rightarrow>
          ((ts, Some (fst (fst (log_vad_event (lg, w) (vad_type ev) (get_or (vad_details ev) [])))),
            snd (fst (log_vad_event (lg, w) (vad_type ev) (get_or (vad_details ev) [])))), None)
      | Some e \<Rightarrow>
          handle_error e
            (ts, Some (fst (fst (log_vad_event (lg, w) (vad_type ev) (get_or (vad_details ev) [])))),
             snd (fst (log_vad_event (lg, w) (vad_type ev) (get_or (vad_details ev) [])))))"
  by (simp add: combined_callback_def dispatch_vad split: option.splits)

lemma handle_error_any_state:
  "handle_error e (ts2, lgo, w) =
     ((ts2, snd (fst (handle_error e (ts, lgo, w)))), snd (handle_error e (ts, lgo, w)))"
  by (auto simp: handle_error_def split: option.splits)

text \<open>
  Claim C9, as the code has it: the early return needs a logger. When the callback carries
  a VAD sub-event and a transcription logger is configured, the event goes to
  \<^verbatim>\<open>log_vad_event\<close> and nothing else is done: the trigger state is returned as it was, the
  logger has the same set of recorded segments, its statistics differ only in the VAD
  counters (one more event, and one more silence filter for the type \<open>vad_filter\<close>), one
  event item is added to the JSON items when JSON logging is on, and the logger, the world
  and the exception that result are the same for any trigger state, text and segment list.
\<close>

theorem vad_event_only_logged:
  "(let r = combined_callback pf a (ts, Some lg, w) txt sa (Some ev);
        event_type = vad_type ev;
        dets = (case vad_details ev of None \<Rightarrow> [] | Some d \<Rightarrow> d)
    in fst (fst r) = ts \<and>
       (\<exists>lg'. fst (snd (fst r)) = Some lg' \<and>
          logged_segments lg' = logged_segments lg \<and>
          stats lg' =
            (if event_type = Some ''vad_filter''
             then (stats lg)\<lparr>vad_total_events := vad_total_events (stats lg) + 1,
                             vad_silence_filters := vad_silence_filters (stats lg) + 1\<rparr>
             else (stats lg)\<lparr>vad_total_events := vad_total_events (stats lg) + 1\<rparr>) \<and>
          json_segments lg' =
            json_segments lg @
              (if enable_json lg then [EventInfo (clock w (reads w)) event_type dets] else [])) \<and>
       combined_callback pf a (ts2, Some lg, w) txt2 sa2 (Some ev) = ((ts2, snd (fst r)), snd r))"
proof -
  let ?l = "log_vad_event (lg, w) (vad_type ev) (get_or (vad_details ev) [])"
  have g: "get_or (vad_details ev) [] = (case vad_details ev of None \<Rightarrow> [] | Some d \<Rightarrow> d)"
    by (cases "vad_details ev") simp_all
  show ?thesis
  proof (cases "snd ?l")
    case None
    then show ?thesis
      by (simp add: combined_callback_vad Let_def log_vad_event_result g)
  next
    case (Some e)
    have 1: "combined_callback pf a (ts, Some lg, w) txt sa (Some ev) =
        handle_error e (ts, Some (fst (fst ?l)), snd (fst ?l))"
      and 2: "combined_callback pf a (ts2, Some lg, w) txt2 sa2 (Some ev) =
        handle_error e (ts2, Some (fst (fst ?l)), snd (fst ?l))"
      using Some by (simp_all add: combined_callback_vad)
    show ?thesis
      unfolding Let_def 1 2
      using handle_error_any_state [of e ts2 "Some (fst (fst ?l))" "snd (fst ?l)" ts]
      by (simp add: handle_error_frame log_vad_event_result g)
  qed
qed

theorem vad_event_only_logged_witness:
  "fst (fst (combined_callback no_float sample_args
      (init_trigger_state (3/2), Some (init_logger True True False 0), sample_world) ''''
      (Some [sample_segment ''say hello'']) (Some sample_vad_event))) = init_trigger_state (3/2) \<and>
   combined_callback no_float sample_args
      (sample_waiting, Some (init_logger True True False 0), sample_world) '''' None (Some sample_vad_event) =
     ((sample_waiting,
       snd (fst (combined_callback no_float sample_args
         (init_trigger_state (3/2), Some (init_logger True True False 0), sample_world) ''''
         (Some [sample_segment ''say hello'']) (Some sample_vad_event)))),
      snd (combined_callback no_float sample_args
         (init_trigger_state (3/2), Some (init_logger True True False 0), sample_world) ''''
         (Some [sample_segment ''say hello'']) (Some sample_vad_event)))"
  using vad_event_only_logged [of no_float sample_args "init_trigger_state (3/2)"
      "init_logger True True False 0" sample_world "''''" "Some [sample_segment ''say hello'']"
      sample_vad_event sample_waiting "''''" None]
  by (simp add: Let_def)

text \<open>
  Claim C9 as stated fails when logging is disabled: the callback carries a VAD sub-event
  and a segment with the trigger word, there is no logger, and the trigger detector starts
  to wait.
\<close>

theorem vad_event_without_logger_counterexample:
  "\<not> waiting (init_trigger_state (3/2)) \<and>
   waiting (fst (fst (combined_callback no_float sample_args
      (init_trigger_state (3/2), None, sample_world) ''''
      (Some [sample_segment ''say hello'']) (Some sample_vad_event))))"
proof -
  have h: "trigger_words sample_args \<noteq> []" "[sample_segment ''say hello''] \<noteq> []"
    "\<not> in_cooldown (init_trigger_state (3/2)) (clock sample_world (reads sample_world))"
    "\<not> waiting (init_trigger_state (3/2))"
    by (simp_all add: init_trigger_state_def sample_args_def in_cooldown_def)
  have s: "py_strip (get_or (seg_text (sample_segment ''say hello'')) '''') = ''say hello''"
    by (simp add: sample_segment_def py_strip_def isspace_def)
  have "py_in (py_lower ''hello'') (py_lower ''say hello'')"
    by (simp add: py_lower_def lower_char_def isupper_def)
  then have sc: "scan_segments (trigger_words sample_args) 0 [sample_segment ''say hello''] =
      Some (0, ''hello'')"
    by (simp add: s sample_args_def)
  have d: "dispatch no_float sample_args (init_trigger_state (3/2), None, sample_world) ''''
      (Some [sample_segment ''say hello'']) (Some sample_vad_event) =
      trigger_word_callback sample_args (init_trigger_state (3/2), None, sample_world) ''''
        (Some [sample_segment ''say hello''])"
    using h(1) by (simp add: dispatch_def log_segments_def)
  have lp: "last_processed_segment_count (init_trigger_state (3/2)) = 0"
    by (simp add: init_trigger_state_def)
  have cb: "trigger_word_callback sample_args (init_trigger_state (3/2), None, sample_world) ''''
        (Some [sample_segment ''say hello'']) =
      start_waiting (clock sample_world (reads sample_world)) (Suc 0) 0 ''hello''
        (init_trigger_state (3/2), None, sample_world\<lparr>reads := Suc (reads sample_world)\<rparr>)"
    unfolding callback_idle [OF h] lp drop_0 sc by simp
  have "snd (start_waiting (clock sample_world (reads sample_world)) (Suc 0) 0 ''hello''
        (init_trigger_state (3/2), None, sample_world\<lparr>reads := Suc (reads sample_world)\<rparr>)) = None"
    by (simp add: start_waiting_def Let_def)
  then obtain q where sw: "start_waiting (clock sample_world (reads sample_world)) (Suc 0) 0 ''hello''
        (init_trigger_state (3/2), None, sample_world\<lparr>reads := Suc (reads sample_world)\<rparr>) = (q, None)"
    by (metis prod.collapse)
  have "combined_callback no_float sample_args
      (init_trigger_state (3/2), None, sample_world) ''''
      (Some [sample_segment ''say hello'']) (Some sample_vad_event) = (q, None)"
    unfolding combined_callback_def d cb sw by simp
  then have "fst (fst (combined_callback no_float sample_args
      (init_trigger_state (3/2), None, sample_world) ''''
      (Some [sample_segment ''say hello'']) (Some sample_vad_event))) =
      fst (fst (start_waiting (clock sample_world (reads sample_world)) (Suc 0) 0 ''hello''
        (init_trigger_state (3/2), None, sample_world\<lparr>reads := Suc (reads sample_world)\<rparr>)))"
    by (simp add: sw)
  then show ?thesis
    using h(4) by (simp add: start_waiting_ts)
qed

end
